theory Spec2Isabelle
  imports Main
begin

section \<open>JavaScript values used by the chat area\<close>

text \<open>
  A JavaScript string is a sequence of UTF-16 code units; a code unit is a natural number.
  String literals of the source are written with \<open>lit\<close>.  An optional property
  (\<^verbatim>\<open>channelId?: string\<close>, \<^verbatim>\<open>user.displayName\<close>) is an \<open>option\<close>, \<open>None\<close> being
  \<^verbatim>\<open>undefined\<close>.
\<close>

type_synonym code_unit = nat
type_synonym js_string = "code_unit list"

definition lit :: "string \<Rightarrow> js_string" where
  "lit s = map of_char s"

text \<open>Truthiness of an optional string: \<^verbatim>\<open>undefined\<close> and \<^verbatim>\<open>''\<close> are falsy.\<close>

fun truthy :: "js_string option \<Rightarrow> bool" where
  "truthy None = False"
| "truthy (Some s) = (s \<noteq> [])"

text \<open>\<^verbatim>\<open>a || b\<close> on optional strings, and \<^verbatim>\<open>a || 'literal'\<close>.\<close>

definition js_or :: "js_string option \<Rightarrow> js_string option \<Rightarrow> js_string option" where
  "js_or a b = (if truthy a then a else b)"

definition js_or_lit :: "js_string option \<Rightarrow> js_string \<Rightarrow> js_string" where
  "js_or_lit a d = (case a of None \<Rightarrow> d | Some s \<Rightarrow> if s \<noteq> [] then s else d)"

text \<open>
  The comparison of two strings that \<^verbatim>\<open>Array.prototype.sort\<close> uses when it is given no
  comparator: code unit by code unit, a proper prefix being smaller.
\<close>

fun str_less :: "js_string \<Rightarrow> js_string \<Rightarrow> bool" where
  "str_less [] [] = False"
| "str_less [] (y # ys) = True"
| "str_less (x # xs) [] = False"
| "str_less (x # xs) (y # ys) =
     (if x < y then True else if y < x then False else str_less xs ys)"

text \<open>
  \<^verbatim>\<open>[a, b].sort()\<close> on a two-element array: \<^verbatim>\<open>undefined\<close> goes last, the sort is
  stable, and the second element moves to the front only when it is strictly smaller.
\<close>

fun sort2 :: "js_string option \<Rightarrow> js_string option \<Rightarrow> js_string option list" where
  "sort2 None b = [b, None]"
| "sort2 (Some a) None = [Some a, None]"
| "sort2 (Some a) (Some b) = (if str_less b a then [Some b, Some a] else [Some a, Some b])"

text \<open>\<^verbatim>\<open>arr.join(sep)\<close>: an \<^verbatim>\<open>undefined\<close> element is rendered as the empty string.\<close>

fun join :: "js_string \<Rightarrow> js_string option list \<Rightarrow> js_string" where
  "join sep [] = []"
| "join sep [x] = (case x of None \<Rightarrow> [] | Some s \<Rightarrow> s)"
| "join sep (x # xs) = (case x of None \<Rightarrow> [] | Some s \<Rightarrow> s) @ sep @ join sep xs"

section \<open>Room Resolver\<close>

text \<open>
  The first line of \<^verbatim>\<open>setupRealtime\<close>:
  \<^verbatim>\<open>channelId ? `channel-${channelId}` : `dm-${[user.id, dmId].sort().join('-')}`\<close>.
\<close>

definition roomId :: "js_string option \<Rightarrow> js_string \<Rightarrow> js_string option \<Rightarrow> js_string" where
  "roomId channelId uid dmId =
     (case channelId of
        Some c \<Rightarrow> if c \<noteq> [] then lit ''channel-'' @ c
                  else lit ''dm-'' @ join (lit ''-'') (sort2 (Some uid) dmId)
      | None \<Rightarrow> lit ''dm-'' @ join (lit ''-'') (sort2 (Some uid) dmId))"

text \<open>
  The guard of the effect, \<^verbatim>\<open>if (!user?.id || (!channelId && !dmId)) return\<close>: without a
  user id, or with neither a channel nor a peer, no room is resolved and nothing is
  subscribed.
\<close>

definition resolveRoom ::
  "js_string option \<Rightarrow> js_string option \<Rightarrow> js_string option \<Rightarrow> js_string option" where
  "resolveRoom uid channelId dmId =
     (if \<not> truthy uid \<or> (\<not> truthy channelId \<and> \<not> truthy dmId) then None
      else Some (roomId channelId (the uid) dmId))"

section \<open>Data model of the chat area\<close>

text \<open>The interfaces \<^verbatim>\<open>FileAttachment\<close> and \<^verbatim>\<open>Message\<close> of the component.\<close>

record FileAttachment =
  att_name :: js_string
  att_url :: js_string
  att_type :: js_string
  att_size :: nat

record author =
  author_name :: js_string
  author_avatar :: "js_string option"

record Message =
  msg_id :: js_string
  content :: js_string
  msg_user :: author
  timestamp :: int
  isOwn :: "bool option"
  msg_attachments :: "FileAttachment list option"

text \<open>
  The session user delivered by \<^verbatim>\<open>onAuthStateChanged\<close>, and the name it is published
  under: \<^verbatim>\<open>user.displayName || user.email?.split('@')[0] || fallback\<close>.  The code unit
  of \<^verbatim>\<open>@\<close> is 64.
\<close>

record user =
  user_id :: js_string
  user_displayName :: "js_string option"
  user_email :: "js_string option"
  user_avatar :: "js_string option"

definition ownName :: "user \<Rightarrow> js_string \<Rightarrow> js_string" where
  "ownName u fallback =
     js_or_lit (js_or (user_displayName u)
                      (map_option (takeWhile (\<lambda>c. c \<noteq> 64)) (user_email u))) fallback"

text \<open>\<^verbatim>\<open>user?.id\<close> as a condition.\<close>

definition userId :: "user option \<Rightarrow> js_string option" where
  "userId u = map_option user_id u"

text \<open>
  A message of the realtime transport, as \<^verbatim>\<open>getMessages\<close> returns it and
  \<^verbatim>\<open>onMessage\<close> delivers it: \<^verbatim>\<open>{id, type, data, metadata, userId, timestamp}\<close>.
\<close>

record rt_metadata =
  md_displayName :: "js_string option"
  md_avatar :: "js_string option"

record rt_data =
  d_content :: js_string
  d_attachments :: "FileAttachment list option"
  d_isTyping :: bool

record realtime_message =
  rt_id :: js_string
  rt_type :: js_string
  rt_data :: rt_data
  rt_metadata :: "rt_metadata option"
  rt_userId :: js_string
  rt_timestamp :: int

text \<open>The calls made on the channel handle: \<^verbatim>\<open>publish(type, data, {userId, metadata})\<close>.\<close>

datatype publish_call =
    PublishChat js_string js_string "FileAttachment list" nat js_string rt_metadata
  | PublishTyping js_string bool nat js_string rt_metadata

text \<open>
  Timers.  A pending \<^verbatim>\<open>setTimeout\<close> is its handle, the instant it is due, and what its
  callback does: the callback of \<^verbatim>\<open>handleMessageChange\<close> (with the user of the render
  that created it) or the auto-removal of a typing name in \<^verbatim>\<open>onMessage\<close>.
\<close>

datatype timer_action = StopTyping "user option" | ExpireTyper js_string

record timer =
  handle :: nat
  due :: nat
  action :: timer_action

text \<open>A file of a \<^verbatim>\<open>FileList\<close>.\<close>

record js_file =
  f_name :: js_string
  f_type :: js_string
  f_size :: nat

text \<open>
  Asynchronous calls whose promise has not settled yet, each with what its continuation
  has captured: \<^verbatim>\<open>channel.subscribe\<close> and \<^verbatim>\<open>channel.getMessages\<close> of
  \<^verbatim>\<open>setupRealtime\<close> (room id and \<^verbatim>\<open>user.id\<close>), the chat \<^verbatim>\<open>publish\<close> of
  \<^verbatim>\<open>handleSendMessage\<close> (\<^verbatim>\<open>message\<close>, \<^verbatim>\<open>attachments\<close>, \<^verbatim>\<open>user\<close>), the typing
  \<^verbatim>\<open>publish\<close> of \<^verbatim>\<open>sendTypingIndicator\<close>, and the upload loop of
  \<^verbatim>\<open>handleFileUpload\<close>.
\<close>

datatype pending_op =
    Subscribing js_string js_string
  | Fetching js_string js_string
  | Publishing js_string "FileAttachment list" user
  | PublishingTyping
  | Uploading "js_file list"

text \<open>
  The component: its \<^verbatim>\<open>useState\<close> cells, its refs, its props, and the part of the
  environment it acts on (timers, the calls made on channels, the console, the promises in
  flight, the registered \<^verbatim>\<open>onMessage\<close> listeners, the uploads started).
\<close>

record chat_state =
  message :: js_string
  messages :: "Message list"
  user :: "user option"
  loading :: bool
  typingUsers :: "js_string list"
  attachments :: "FileAttachment list"
  uploading :: bool
  channelRef :: "js_string option"
  typingTimeoutRef :: "nat option"
  channelId :: "js_string option"
  dmId :: "js_string option"
  timers :: "timer list"
  nextHandle :: nat
  published :: "publish_call list"
  console :: "js_string list"
  pending :: "pending_op list"
  listeners :: "(js_string \<times> js_string) list"
  uploadCalls :: "js_file list"

definition init :: "js_string option \<Rightarrow> js_string option \<Rightarrow> chat_state" where
  "init c d =
     \<lparr>message = [], messages = [], user = None, loading = True, typingUsers = [],
      attachments = [], uploading = False, channelRef = None, typingTimeoutRef = None,
      channelId = c, dmId = d, timers = [], nextHandle = 1, published = [], console = [],
      pending = [], listeners = [], uploadCalls = []\<rparr>"

section \<open>Timers\<close>

text \<open>
  \<^verbatim>\<open>setTimeout(cb, delay)\<close> called at instant \<open>now\<close> returns a fresh handle;
  \<^verbatim>\<open>clearTimeout(h)\<close> drops the timer with that handle.  Handles start at 1, so a handle
  held in a ref is truthy.
\<close>

definition setTimeout :: "timer_action \<Rightarrow> nat \<Rightarrow> nat \<Rightarrow> chat_state \<Rightarrow> nat \<times> chat_state" where
  "setTimeout a delay now s =
     (nextHandle s,
      s\<lparr>timers := timers s @ [\<lparr>handle = nextHandle s, due = now + delay, action = a\<rparr>],
        nextHandle := Suc (nextHandle s)\<rparr>)"

definition clearTimeout :: "nat \<Rightarrow> chat_state \<Rightarrow> chat_state" where
  "clearTimeout h s = s\<lparr>timers := filter (\<lambda>tm. handle tm \<noteq> h) (timers s)\<rparr>"

section \<open>Typing-Indicator Debouncer, sender side\<close>

text \<open>
  \<^verbatim>\<open>sendTypingIndicator\<close>, called from a closure whose \<^verbatim>\<open>user\<close> is \<open>u\<close>: nothing
  without a channel handle or a user id, else one \<^verbatim>\<open>typing\<close> publish on the current
  handle.  A rejection of that publish is only written to the console.
\<close>

definition metadataOf :: "user \<Rightarrow> rt_metadata" where
  "metadataOf u =
     \<lparr>md_displayName = Some (ownName u (lit ''Anonymous'')),
      md_avatar = Some (js_or_lit (user_avatar u) [])\<rparr>"

definition sendTypingIndicator :: "user option \<Rightarrow> bool \<Rightarrow> nat \<Rightarrow> chat_state \<Rightarrow> chat_state" where
  "sendTypingIndicator u isTyping now s =
     (case channelRef s of
        None \<Rightarrow> s
      | Some room \<Rightarrow>
          (case u of
             None \<Rightarrow> s
           | Some usr \<Rightarrow>
               if user_id usr = [] then s
               else s\<lparr>published := published s @
                         [PublishTyping room isTyping now (user_id usr) (metadataOf usr)],
                       pending := pending s @ [PublishingTyping]\<rparr>))"

text \<open>
  \<^verbatim>\<open>String.prototype.trim\<close> removes the white space and line terminator code units of
  ECMAScript from both ends.
\<close>

definition is_ws :: "code_unit \<Rightarrow> bool" where
  "is_ws c \<longleftrightarrow>
     c \<in> {9, 10, 11, 12, 13, 32, 160, 5760, 8232, 8233, 8239, 8287, 12288, 65279}
     \<or> (8192 \<le> c \<and> c \<le> 8202)"

definition trim :: "js_string \<Rightarrow> js_string" where
  "trim s = rev (dropWhile is_ws (rev (dropWhile is_ws s)))"

text \<open>
  \<^verbatim>\<open>handleMessageChange\<close> for an input event carrying \<open>v\<close>, at instant \<open>now\<close>.
\<close>

definition handleMessageChange :: "js_string \<Rightarrow> nat \<Rightarrow> chat_state \<Rightarrow> chat_state" where
  "handleMessageChange v now s =
     (let s1 = s\<lparr>message := v\<rparr>;
          s2 = (if trim v \<noteq> [] \<and> typingTimeoutRef s1 = None
                then sendTypingIndicator (user s) True now s1 else s1);
          s3 = (case typingTimeoutRef s2 of Some h \<Rightarrow> clearTimeout h s2 | None \<Rightarrow> s2);
          (h', s4) = setTimeout (StopTyping (user s)) 1000 now s3
      in s4\<lparr>typingTimeoutRef := Some h'\<rparr>)"

text \<open>
  A timer fires: the callback of \<^verbatim>\<open>handleMessageChange\<close> sends the stop signal and
  empties the ref; the callback of \<^verbatim>\<open>onMessage\<close> removes the name.
\<close>

definition fire :: "timer \<Rightarrow> chat_state \<Rightarrow> chat_state" where
  "fire tm s =
     (case action tm of
        StopTyping u \<Rightarrow> (sendTypingIndicator u False (due tm) s)\<lparr>typingTimeoutRef := None\<rparr>
      | ExpireTyper n \<Rightarrow> s\<lparr>typingUsers := filter (\<lambda>x. x \<noteq> n) (typingUsers s)\<rparr>)"

text \<open>
  Time passes up to instant \<open>T\<close>: every timer due by then fires, at its due instant, in
  the order of the due instants (creation order among equals).  No callback of this
  component arms or clears a timer, so the timers to fire are known beforehand.
\<close>

definition advance :: "nat \<Rightarrow> chat_state \<Rightarrow> chat_state" where
  "advance T s =
     foldl (\<lambda>st tm. fire tm st)
       (s\<lparr>timers := filter (\<lambda>tm. T < due tm) (timers s)\<rparr>)
       (sort_key due (filter (\<lambda>tm. due tm \<le> T) (timers s)))"

section \<open>Message Reconciler\<close>

text \<open>
  The mapping of a transport message to a \<^verbatim>\<open>Message\<close>, written twice in the source
  (in \<^verbatim>\<open>onMessage\<close> and after \<^verbatim>\<open>getMessages\<close>) with the same fields; \<open>uid\<close> is the
  \<^verbatim>\<open>user.id\<close> of the effect's closure.
\<close>

definition toMessage :: "js_string \<Rightarrow> realtime_message \<Rightarrow> Message" where
  "toMessage uid rm =
     \<lparr>msg_id = rt_id rm,
      content = d_content (rt_data rm),
      msg_user = \<lparr>author_name =
                    js_or_lit (Option.bind (rt_metadata rm) md_displayName) (lit ''Anonymous''),
                  author_avatar =
                    Some (js_or_lit (Option.bind (rt_metadata rm) md_avatar) [])\<rparr>,
      timestamp = rt_timestamp rm,
      isOwn = Some (rt_userId rm = uid),
      msg_attachments =
        Some (case d_attachments (rt_data rm) of None \<Rightarrow> [] | Some as \<Rightarrow> as)\<rparr>"

text \<open>The callback given to \<^verbatim>\<open>channel.onMessage\<close>, run at instant \<open>now\<close>.\<close>

definition onMessage :: "js_string \<Rightarrow> nat \<Rightarrow> realtime_message \<Rightarrow> chat_state \<Rightarrow> chat_state" where
  "onMessage uid now rm s =
     (if rt_type rm = lit ''chat'' then
        (let newMessage = toMessage uid rm
         in s\<lparr>messages :=
                (if list_ex (\<lambda>msg. msg_id msg = msg_id newMessage) (messages s)
                 then messages s else messages s @ [newMessage])\<rparr>)
      else if rt_type rm = lit ''typing'' then
        (let isTyping = d_isTyping (rt_data rm);
             userName = js_or_lit (Option.bind (rt_metadata rm) md_displayName) (lit ''Someone'')
         in if rt_userId rm \<noteq> uid then
              (let s1 = s\<lparr>typingUsers :=
                           (if isTyping
                            then (if userName \<in> set (typingUsers s) then typingUsers s
                                  else typingUsers s @ [userName])
                            else filter (\<lambda>name. name \<noteq> userName) (typingUsers s))\<rparr>
               in if isTyping then snd (setTimeout (ExpireTyper userName) 3000 now s1) else s1)
            else s)
      else s)"

text \<open>
  The second effect.  Its cleanup, \<^verbatim>\<open>channel?.unsubscribe(); channelRef.current = null\<close>,
  exists when the previous run got past the guard, which is when the ref holds a handle;
  the call to \<^verbatim>\<open>unsubscribe\<close> goes to the transport and changes nothing the component
  holds.
  Its body resolves the room, stores the handle and calls \<^verbatim>\<open>channel.subscribe\<close>; the
  rest of \<^verbatim>\<open>setupRealtime\<close> runs when that promise settles.
\<close>

definition cleanup :: "chat_state \<Rightarrow> chat_state" where
  "cleanup s = s\<lparr>channelRef := None\<rparr>"

definition setupEffect :: "chat_state \<Rightarrow> chat_state" where
  "setupEffect s =
     (let s0 = cleanup s
      in case resolveRoom (userId (user s0)) (channelId s0) (dmId s0) of
           None \<Rightarrow> s0
         | Some r \<Rightarrow>
             s0\<lparr>channelRef := Some r,
                pending := pending s0 @ [Subscribing r (user_id (the (user s0)))]\<rparr>)"

text \<open>
  \<^verbatim>\<open>setupRealtime\<close> after \<^verbatim>\<open>await channel.subscribe(...)\<close>: the listener is registered
  and \<^verbatim>\<open>getMessages\<close> is called; a rejection ends in \<^verbatim>\<open>.catch(console.error)\<close>, which
  prints the error without a label.
\<close>

definition subscribeSettled :: "js_string \<Rightarrow> js_string \<Rightarrow> bool \<Rightarrow> chat_state \<Rightarrow> chat_state" where
  "subscribeSettled r uid ok s =
     (if ok then s\<lparr>listeners := listeners s @ [(r, uid)],
                    pending := pending s @ [Fetching r uid]\<rparr>
      else s\<lparr>console := console s @ [[]]\<rparr>)"

text \<open>
  \<^verbatim>\<open>setupRealtime\<close> after \<^verbatim>\<open>await channel.getMessages({ limit: 50 })\<close>, at instant
  \<open>now\<close>: the \<^verbatim>\<open>try\<close> branch for a result, the \<^verbatim>\<open>catch\<close> branch for a rejection.
  The wave emoji of the welcome text is the surrogate pair 55357, 56395.
\<close>

definition welcomeMessage :: "nat \<Rightarrow> Message" where
  "welcomeMessage now =
     \<lparr>msg_id = lit ''welcome-1'',
      content = lit ''Welcome to the team workspace! '' @ [55357, 56395],
      msg_user = \<lparr>author_name = lit ''System'', author_avatar = Some []\<rparr>,
      timestamp = int now - 3600000,
      isOwn = None,
      msg_attachments = None\<rparr>"

definition backlogSettled ::
  "js_string \<Rightarrow> nat \<Rightarrow> realtime_message list option \<Rightarrow> chat_state \<Rightarrow> chat_state" where
  "backlogSettled uid now res s =
     (case res of
        Some recentMessages \<Rightarrow> s\<lparr>messages := map (toMessage uid) recentMessages\<rparr>
      | None \<Rightarrow> s\<lparr>console := console s @ [lit ''Failed to load messages:''],
                  messages := [welcomeMessage now]\<rparr>)"

text \<open>The third effect: \<^verbatim>\<open>setMessages([]); setAttachments([]); setTypingUsers([])\<close>.\<close>

definition clearEffect :: "chat_state \<Rightarrow> chat_state" where
  "clearEffect s = s\<lparr>messages := [], attachments := [], typingUsers := []\<rparr>"

text \<open>
  New props: the effects whose dependencies changed run, in the order of their
  declaration.  A new auth state: \<^verbatim>\<open>setUser\<close>, \<^verbatim>\<open>setLoading\<close>, and the second effect
  when one of \<^verbatim>\<open>user?.id\<close>, \<^verbatim>\<open>user?.displayName\<close>, \<^verbatim>\<open>user?.email\<close>,
  \<^verbatim>\<open>user?.avatar\<close> changed.
\<close>

definition propsChanged :: "js_string option \<Rightarrow> js_string option \<Rightarrow> chat_state \<Rightarrow> chat_state" where
  "propsChanged c d s =
     (if c = channelId s \<and> d = dmId s then s
      else clearEffect (setupEffect (s\<lparr>channelId := c, dmId := d\<rparr>)))"

definition userDeps ::
  "user option \<Rightarrow> js_string option \<times> js_string option \<times> js_string option \<times> js_string option" where
  "userDeps u =
     (case u of
        None \<Rightarrow> (None, None, None, None)
      | Some x \<Rightarrow> (Some (user_id x), user_displayName x, user_email x, user_avatar x))"

definition authStateChanged :: "user option \<Rightarrow> bool \<Rightarrow> chat_state \<Rightarrow> chat_state" where
  "authStateChanged u l s =
     (let s1 = s\<lparr>user := u, loading := l\<rparr>
      in if userDeps u = userDeps (user s) then s1 else setupEffect s1)"

section \<open>Attachment Stager\<close>

text \<open>
  \<^verbatim>\<open>handleFileUpload\<close>.  Up to the first \<^verbatim>\<open>await\<close>: nothing for an empty list, else
  the busy flag is set.  The loop uploads the files one after the other, each \<^verbatim>\<open>await\<close>
  either giving a public URL or throwing; the storage service is represented by its
  answer for each file (\<open>None\<close>: the upload is rejected).
\<close>

definition handleFileUpload :: "js_file list \<Rightarrow> chat_state \<Rightarrow> chat_state" where
  "handleFileUpload files s =
     (if files = [] then s
      else s\<lparr>uploading := True, pending := pending s @ [Uploading files]\<rparr>)"

fun uploadLoop ::
  "(js_file \<times> js_string option) list \<Rightarrow> FileAttachment list \<Rightarrow> FileAttachment list option" where
  "uploadLoop [] newAttachments = Some newAttachments"
| "uploadLoop ((file, None) # rest) newAttachments = None"
| "uploadLoop ((file, Some publicUrl) # rest) newAttachments =
     uploadLoop rest
       (newAttachments @
          [\<lparr>att_name = f_name file, att_url = publicUrl,
            att_type = f_type file, att_size = f_size file\<rparr>])"

text \<open>The files for which \<^verbatim>\<open>blink.storage.upload\<close> is called before the loop ends.\<close>

fun uploadsStarted :: "(js_file \<times> js_string option) list \<Rightarrow> js_file list" where
  "uploadsStarted [] = []"
| "uploadsStarted ((file, None) # rest) = [file]"
| "uploadsStarted ((file, Some publicUrl) # rest) = file # uploadsStarted rest"

text \<open>The rest of \<^verbatim>\<open>handleFileUpload\<close>: after the loop, \<^verbatim>\<open>catch\<close> and \<^verbatim>\<open>finally\<close>.\<close>

definition uploadsSettled :: "(js_file \<times> js_string option) list \<Rightarrow> chat_state \<Rightarrow> chat_state" where
  "uploadsSettled answers s =
     (let s1 = s\<lparr>uploadCalls := uploadCalls s @ uploadsStarted answers\<rparr>
      in case uploadLoop answers [] of
           Some newAttachments \<Rightarrow>
             s1\<lparr>attachments := attachments s1 @ newAttachments, uploading := False\<rparr>
         | None \<Rightarrow>
             s1\<lparr>console := console s1 @ [lit ''Failed to upload files:''],
                uploading := False\<rparr>)"

text \<open>\<^verbatim>\<open>removeAttachment\<close>: \<^verbatim>\<open>prev.filter((_, i) => i !== index)\<close>.\<close>

definition removeAttachment :: "nat \<Rightarrow> chat_state \<Rightarrow> chat_state" where
  "removeAttachment index s =
     s\<lparr>attachments :=
         map snd (filter (\<lambda>(i, a). i \<noteq> index) (enumerate 0 (attachments s)))\<rparr>"

section \<open>Composer Controller\<close>

text \<open>
  \<^verbatim>\<open>Number.prototype.toString\<close> of a non-negative integer, for
  \<^verbatim>\<open>Date.now().toString()\<close>: its decimal digits, code units 48 to 57.
\<close>

fun digits :: "nat \<Rightarrow> js_string" where
  "digits n = (if n < 10 then [48 + n] else digits (n div 10) @ [48 + n mod 10])"

declare digits.simps [simp del]

text \<open>
  \<^verbatim>\<open>handleSendMessage\<close> at instant \<open>now\<close>, up to the \<^verbatim>\<open>await\<close>: the guard, then the
  chat publish on the current handle with the \<^verbatim>\<open>message\<close>, \<^verbatim>\<open>attachments\<close> and
  \<^verbatim>\<open>user\<close> of this render.
\<close>

definition handleSendMessage :: "nat \<Rightarrow> chat_state \<Rightarrow> chat_state" where
  "handleSendMessage now s =
     (if (trim (message s) = [] \<and> attachments s = []) \<or> \<not> truthy (userId (user s))
         \<or> channelRef s = None
      then s
      else s\<lparr>published := published s @
                [PublishChat (the (channelRef s)) (message s) (attachments s) now
                   (user_id (the (user s))) (metadataOf (the (user s)))],
              pending := pending s @ [Publishing (message s) (attachments s) (the (user s))]\<rparr>)"

text \<open>
  After the \<^verbatim>\<open>await\<close>, with what the call captured (\<open>msg\<close>, \<open>atts\<close>, \<open>u\<close>): the rest
  of the \<^verbatim>\<open>try\<close> block when the publish resolved, the \<^verbatim>\<open>catch\<close> block, at instant
  \<open>now\<close>, when it was rejected.
\<close>

definition publishResolved :: "user \<Rightarrow> nat \<Rightarrow> chat_state \<Rightarrow> chat_state" where
  "publishResolved u now s =
     sendTypingIndicator (Some u) False now (s\<lparr>message := [], attachments := []\<rparr>)"

definition fallbackMessage :: "js_string \<Rightarrow> FileAttachment list \<Rightarrow> user \<Rightarrow> nat \<Rightarrow> Message" where
  "fallbackMessage msg atts u now =
     \<lparr>msg_id = digits now,
      content = msg,
      msg_user = \<lparr>author_name = ownName u (lit ''You''),
                  author_avatar = Some (js_or_lit (user_avatar u) [])\<rparr>,
      timestamp = int now,
      isOwn = Some True,
      msg_attachments = Some atts\<rparr>"

definition publishRejected ::
  "js_string \<Rightarrow> FileAttachment list \<Rightarrow> user \<Rightarrow> nat \<Rightarrow> chat_state \<Rightarrow> chat_state" where
  "publishRejected msg atts u now s =
     s\<lparr>console := console s @ [lit ''Failed to send message:''],
       messages := messages s @ [fallbackMessage msg atts u now],
       message := [],
       attachments := []\<rparr>"

section \<open>The component as a reducer of timed events\<close>

text \<open>
  Every callback the event loop can deliver to the component.  A settlement names the
  promise it settles by what that promise captured, and is ignored when no such promise
  is in flight; a transport message is ignored when no listener was registered for it.
\<close>

datatype event =
    AuthStateChanged "user option" bool
  | PropsChanged "js_string option" "js_string option"
  | SubscribeSettled js_string js_string bool
  | BacklogSettled js_string js_string "realtime_message list option"
  | Received js_string js_string realtime_message
  | InputChanged js_string
  | SendPressed
  | PublishSettled js_string "FileAttachment list" user bool
  | TypingPublishSettled bool
  | FilesChosen "js_file list"
  | UploadsSettled "(js_file \<times> js_string option) list"
  | RemovePressed nat

definition settle :: "pending_op \<Rightarrow> chat_state \<Rightarrow> chat_state" where
  "settle op s = s\<lparr>pending := remove1 op (pending s)\<rparr>"

fun dispatch :: "event \<Rightarrow> nat \<Rightarrow> chat_state \<Rightarrow> chat_state" where
  "dispatch (AuthStateChanged u l) now s = authStateChanged u l s"
| "dispatch (PropsChanged c d) now s = propsChanged c d s"
| "dispatch (SubscribeSettled r uid ok) now s =
     (if Subscribing r uid \<in> set (pending s)
      then subscribeSettled r uid ok (settle (Subscribing r uid) s) else s)"
| "dispatch (BacklogSettled r uid res) now s =
     (if Fetching r uid \<in> set (pending s)
      then backlogSettled uid now res (settle (Fetching r uid) s) else s)"
| "dispatch (Received r uid rm) now s =
     (if (r, uid) \<in> set (listeners s) then onMessage uid now rm s else s)"
| "dispatch (InputChanged v) now s = handleMessageChange v now s"
| "dispatch SendPressed now s = handleSendMessage now s"
| "dispatch (PublishSettled msg atts u ok) now s =
     (if Publishing msg atts u \<in> set (pending s)
      then (if ok then publishResolved u now (settle (Publishing msg atts u) s)
            else publishRejected msg atts u now (settle (Publishing msg atts u) s))
      else s)"
| "dispatch (TypingPublishSettled ok) now s =
     (if PublishingTyping \<in> set (pending s)
      then (if ok then settle PublishingTyping s
            else (settle PublishingTyping s)\<lparr>console := console s @ [[]]\<rparr>)
      else s)"
| "dispatch (FilesChosen files) now s = handleFileUpload files s"
| "dispatch (UploadsSettled answers) now s =
     (if Uploading (map fst answers) \<in> set (pending s)
      then uploadsSettled answers (settle (Uploading (map fst answers)) s) else s)"
| "dispatch (RemovePressed index) now s = removeAttachment index s"

text \<open>
  An event delivered at instant \<open>now\<close>: the timers due by then have fired first.  A run
  is a sequence of timed events.
\<close>

definition step :: "chat_state \<Rightarrow> nat \<times> event \<Rightarrow> chat_state" where
  "step s te = dispatch (snd te) (fst te) (advance (fst te) s)"

definition run :: "chat_state \<Rightarrow> (nat \<times> event) list \<Rightarrow> chat_state" where
  "run s tes = foldl step s tes"

section \<open>Date grouping\<close>

text \<open>
  A \<^verbatim>\<open>Date\<close> is its time value, milliseconds since the epoch.  The viewer's zone is a
  function \<open>zone\<close> from a time value to the calendar date that \<^verbatim>\<open>toDateString\<close> and
  \<^verbatim>\<open>toLocaleDateString\<close> print for it.  Two \<^verbatim>\<open>toDateString()\<close> results are equal
  exactly when the calendar dates are.
\<close>

datatype month =
    January | February | March | April | May | June
  | July | August | September | October | November | December

record cdate =
  c_year :: int
  c_month :: month
  c_day :: nat

fun monthName :: "month \<Rightarrow> js_string" where
  "monthName January = lit ''January''"
| "monthName February = lit ''February''"
| "monthName March = lit ''March''"
| "monthName April = lit ''April''"
| "monthName May = lit ''May''"
| "monthName June = lit ''June''"
| "monthName July = lit ''July''"
| "monthName August = lit ''August''"
| "monthName September = lit ''September''"
| "monthName October = lit ''October''"
| "monthName November = lit ''November''"
| "monthName December = lit ''December''"

fun prevMonth :: "month \<Rightarrow> month" where
  "prevMonth January = December"
| "prevMonth February = January"
| "prevMonth March = February"
| "prevMonth April = March"
| "prevMonth May = April"
| "prevMonth June = May"
| "prevMonth July = June"
| "prevMonth August = July"
| "prevMonth September = August"
| "prevMonth October = September"
| "prevMonth November = October"
| "prevMonth December = November"

definition isLeap :: "int \<Rightarrow> bool" where
  "isLeap y \<longleftrightarrow> y mod 4 = 0 \<and> (y mod 100 \<noteq> 0 \<or> y mod 400 = 0)"

fun daysInMonth :: "int \<Rightarrow> month \<Rightarrow> nat" where
  "daysInMonth y February = (if isLeap y then 29 else 28)"
| "daysInMonth y April = 30"
| "daysInMonth y June = 30"
| "daysInMonth y September = 30"
| "daysInMonth y November = 30"
| "daysInMonth y m = 31"

text \<open>
  The calendar date of \<^verbatim>\<open>yesterday\<close> after
  \<^verbatim>\<open>yesterday.setDate(yesterday.getDate() - 1)\<close>: day 0 of a month is the last day of the
  month before.
\<close>

definition dayBefore :: "cdate \<Rightarrow> cdate" where
  "dayBefore d =
     (if 1 < c_day d then d\<lparr>c_day := c_day d - 1\<rparr>
      else if c_month d = January
           then \<lparr>c_year = c_year d - 1, c_month = December, c_day = 31\<rparr>
           else \<lparr>c_year = c_year d, c_month = prevMonth (c_month d),
                 c_day = daysInMonth (c_year d) (prevMonth (c_month d))\<rparr>)"

text \<open>
  \<^verbatim>\<open>formatDate\<close>, called at instant \<open>now\<close>.
  \<^verbatim>\<open>toLocaleDateString('en-US', { month: 'long', day: 'numeric' })\<close> prints the month
  name, a space and the day of the month: the year is not part of it.
\<close>

definition formatDate :: "(int \<Rightarrow> cdate) \<Rightarrow> nat \<Rightarrow> int \<Rightarrow> js_string" where
  "formatDate zone now date =
     (let today = zone (int now);
          yesterday = dayBefore today
      in if zone date = today then lit ''Today''
         else if zone date = yesterday then lit ''Yesterday''
         else monthName (c_month (zone date)) @ lit '' '' @ digits (c_day (zone date)))"

text \<open>
  The flag computed for each message by the render,
  \<^verbatim>\<open>index === 0 || formatDate(msg.timestamp) !== formatDate(messages[index - 1].timestamp)\<close>,
  and the flags of a whole transcript (\<^verbatim>\<open>messages.map((msg, index) => ...)\<close>).
\<close>

definition showDate :: "(int \<Rightarrow> cdate) \<Rightarrow> nat \<Rightarrow> Message list \<Rightarrow> nat \<Rightarrow> bool" where
  "showDate zone now msgs index \<longleftrightarrow>
     index = 0 \<or>
     formatDate zone now (timestamp (msgs ! index))
       \<noteq> formatDate zone now (timestamp (msgs ! (index - 1)))"

definition separators :: "(int \<Rightarrow> cdate) \<Rightarrow> nat \<Rightarrow> Message list \<Rightarrow> bool list" where
  "separators zone now msgs = map (showDate zone now msgs) [0..<length msgs]"

text \<open>
  A zone at a fixed offset from UTC, in minutes: the days since the epoch are turned into
  a date of the proleptic Gregorian calendar, by eras of 400 years and years that start
  in March.
\<close>

definition monthOfMarch :: "int \<Rightarrow> month" where
  "monthOfMarch mp =
     (if mp = 0 then March else if mp = 1 then April else if mp = 2 then May
      else if mp = 3 then June else if mp = 4 then July else if mp = 5 then August
      else if mp = 6 then September else if mp = 7 then October
      else if mp = 8 then November else if mp = 9 then December
      else if mp = 10 then January else February)"

definition civilFromDays :: "int \<Rightarrow> cdate" where
  "civilFromDays days =
     (let z = days + 719468;
          era = z div 146097;
          doe = z mod 146097;
          yoe = (doe - doe div 1460 + doe div 36524 - doe div 146096) div 365;
          doy = doe - (365 * yoe + yoe div 4 - yoe div 100);
          mp = (5 * doy + 2) div 153;
          d = doy - (153 * mp + 2) div 5 + 1
      in \<lparr>c_year = yoe + era * 400 + (if 10 \<le> mp then 1 else 0),
          c_month = monthOfMarch mp,
          c_day = nat d\<rparr>)"

definition fixedZone :: "int \<Rightarrow> int \<Rightarrow> cdate" where
  "fixedZone offsetMinutes t = civilFromDays ((t + offsetMinutes * 60000) div 86400000)"

section \<open>Sample values\<close>

text \<open>A signed-in user, a peer, and messages as the transport delivers them.\<close>

definition alice :: user where
  "alice = \<lparr>user_id = lit ''usr_1'', user_displayName = Some (lit ''Alice''),
            user_email = Some (lit ''alice@example.com''), user_avatar = None\<rparr>"

definition chatFrom :: "js_string \<Rightarrow> js_string \<Rightarrow> js_string \<Rightarrow> js_string \<Rightarrow> int \<Rightarrow> realtime_message" where
  "chatFrom i uid name text t =
     \<lparr>rt_id = i, rt_type = lit ''chat'',
      rt_data = \<lparr>d_content = text, d_attachments = None, d_isTyping = False\<rparr>,
      rt_metadata = Some \<lparr>md_displayName = Some name, md_avatar = None\<rparr>,
      rt_userId = uid, rt_timestamp = t\<rparr>"

definition typingFrom :: "js_string \<Rightarrow> js_string \<Rightarrow> bool \<Rightarrow> int \<Rightarrow> realtime_message" where
  "typingFrom uid name isTyping t =
     \<lparr>rt_id = [], rt_type = lit ''typing'',
      rt_data = \<lparr>d_content = [], d_attachments = None, d_isTyping = isTyping\<rparr>,
      rt_metadata = Some \<lparr>md_displayName = Some name, md_avatar = None\<rparr>,
      rt_userId = uid, rt_timestamp = t\<rparr>"

definition fileNamed :: "js_string \<Rightarrow> js_file" where
  "fileNamed n = \<lparr>f_name = n, f_type = lit ''image/png'', f_size = 2048\<rparr>"

text \<open>A session in which \<open>alice\<close> is signed in, a channel handle is held and \<open>text\<close> is typed.\<close>

definition composing :: "js_string \<Rightarrow> chat_state" where
  "composing text =
     (init (Some (lit ''general'')) (Some []))
       \<lparr>user := Some alice, loading := False,
        channelRef := Some (lit ''channel-general''), message := text\<rparr>"

text \<open>A message that carries nothing but a timestamp.\<close>

definition messageAt :: "int \<Rightarrow> Message" where
  "messageAt t =
     \<lparr>msg_id = [], content = [],
      msg_user = \<lparr>author_name = lit ''Bob'', author_avatar = Some []\<rparr>,
      timestamp = t, isOwn = Some False, msg_attachments = Some []\<rparr>"

section \<open>Notions used in the statements\<close>

text \<open>The number of transcript entries with a given id.\<close>

definition entries :: "js_string \<Rightarrow> chat_state \<Rightarrow> nat" where
  "entries i s = length (filter (\<lambda>msg. msg_id msg = i) (messages s))"

text \<open>The name under which \<^verbatim>\<open>onMessage\<close> lists the sender of a typing event.\<close>

definition typerName :: "realtime_message \<Rightarrow> js_string" where
  "typerName rm = js_or_lit (Option.bind (rt_metadata rm) md_displayName) (lit ''Someone'')"

text \<open>
  A burst after instant \<open>t\<close>: input events, each at most 999 ms after the one before.
  \<open>keystrokes\<close> turns them into events of the component, \<open>lastInstant\<close> is the instant
  of the last one.
\<close>

fun burst :: "nat \<Rightarrow> (nat \<times> js_string) list \<Rightarrow> bool" where
  "burst t [] = True"
| "burst t ((t', v) # ks) = (t \<le> t' \<and> t' < t + 1000 \<and> burst t' ks)"

definition keystrokes :: "(nat \<times> js_string) list \<Rightarrow> (nat \<times> event) list" where
  "keystrokes ks = map (\<lambda>(t, v). (t, InputChanged v)) ks"

fun lastInstant :: "nat \<Rightarrow> (nat \<times> js_string) list \<Rightarrow> nat" where
  "lastInstant t [] = t"
| "lastInstant t ((t', v) # ks) = lastInstant t' ks"

text \<open>
  The timers armed by \<^verbatim>\<open>handleMessageChange\<close>, what one of them publishes on the
  handle for \<open>room\<close> when it fires, and the state in which exactly one of them is
  pending, due 1000 ms after \<open>t\<close>, with its handle in the ref.
\<close>

definition isStopTimer :: "timer \<Rightarrow> bool" where
  "isStopTimer tm = (case action tm of StopTyping u \<Rightarrow> True | ExpireTyper n \<Rightarrow> False)"

definition stopSignal :: "js_string \<Rightarrow> timer \<Rightarrow> publish_call list" where
  "stopSignal room tm =
     (case action tm of
        StopTyping u \<Rightarrow>
          (case u of
             None \<Rightarrow> []
           | Some usr \<Rightarrow>
               if user_id usr = [] then []
               else [PublishTyping room False (due tm) (user_id usr) (metadataOf usr)])
      | ExpireTyper n \<Rightarrow> [])"

definition stopArmed :: "js_string \<Rightarrow> user \<Rightarrow> nat \<Rightarrow> chat_state \<Rightarrow> bool" where
  "stopArmed room u t s \<longleftrightarrow>
     channelRef s = Some room \<and> user s = Some u \<and> user_id u \<noteq> [] \<and>
     (case typingTimeoutRef s of
        None \<Rightarrow> False
      | Some h \<Rightarrow>
          filter isStopTimer (timers s)
            = [\<lparr>handle = h, due = t + 1000, action = StopTyping (Some u)\<rparr>])"

text \<open>
  The ref and the pending stop timers agree: an empty ref and no such timer, or a handle
  in the ref and that one timer.
\<close>

definition stopTimersMatchRef :: "chat_state \<Rightarrow> bool" where
  "stopTimersMatchRef s \<longleftrightarrow>
     (case typingTimeoutRef s of
        None \<Rightarrow> filter isStopTimer (timers s) = []
      | Some h \<Rightarrow> map handle (filter isStopTimer (timers s)) = [h])"

text \<open>The number of \<open>typing\<close> signals with a given flag among the calls made.\<close>

fun isTypingSignal :: "bool \<Rightarrow> publish_call \<Rightarrow> bool" where
  "isTypingSignal b (PublishTyping room isTyping t uid md) = (isTyping = b)"
| "isTypingSignal b (PublishChat room text atts t uid md) = False"

definition typingSignals :: "bool \<Rightarrow> publish_call list \<Rightarrow> nat" where
  "typingSignals b calls = length (filter (isTypingSignal b) calls)"

text \<open>
  The dates that \<^verbatim>\<open>formatDate\<close>, called at \<open>now\<close>, prints as \<open>Today\<close> or
  \<open>Yesterday\<close>.
\<close>

definition recent :: "(int \<Rightarrow> cdate) \<Rightarrow> nat \<Rightarrow> cdate \<Rightarrow> bool" where
  "recent zone now d \<longleftrightarrow> d = zone (int now) \<or> d = dayBefore (zone (int now))"

text \<open>The text printed for a date that is neither today nor yesterday.\<close>

definition monthDay :: "cdate \<Rightarrow> js_string" where
  "monthDay d = monthName (c_month d) @ lit '' '' @ digits (c_day d)"

section \<open>Properties of the Room Resolver\<close>

lemma str_less_total: "\<not> str_less a b \<Longrightarrow> \<not> str_less b a \<Longrightarrow> a = b"
  by (induction a b rule: str_less.induct) (auto split: if_splits)

lemma str_less_asym: "str_less a b \<Longrightarrow> \<not> str_less b a"
  by (induction a b rule: str_less.induct) (auto split: if_splits)

lemma sort2_commute: "sort2 (Some a) (Some b) = sort2 (Some b) (Some a)"
  using str_less_total [of a b] str_less_asym [of a b] str_less_asym [of b a]
  by auto

text \<open>
  C1. On the direct-message path (no channel selected) the room id computed for current
  user \<open>A\<close> and peer \<open>B\<close> is the one computed for current user \<open>B\<close> and peer \<open>A\<close>,
  and it is \<open>dm-\<close> followed by the two ids in sorted order joined by \<open>-\<close>.
\<close>

theorem roomId_symmetric:
  "\<not> truthy chan \<Longrightarrow> A \<noteq> B \<Longrightarrow>
     roomId chan A (Some B) = roomId chan B (Some A) \<and>
     roomId chan A (Some B) =
       lit ''dm-'' @ (if str_less B A then B @ lit ''-'' @ A else A @ lit ''-'' @ B)"
proof -
  assume dm: "\<not> truthy chan" and ne: "A \<noteq> B"
  have path: "roomId chan u (Some p) = lit ''dm-'' @ join (lit ''-'') (sort2 (Some u) (Some p))"
    for u p
    using dm by (cases chan) (simp_all add: roomId_def)
  have sym: "roomId chan A (Some B) = roomId chan B (Some A)"
    by (simp only: path sort2_commute [of A B])
  have shape: "roomId chan A (Some B) =
       lit ''dm-'' @ (if str_less B A then B @ lit ''-'' @ A else A @ lit ''-'' @ B)"
    by (simp add: path)
  from sym shape show ?thesis by (rule conjI)
qed

theorem roomId_symmetric_witness:
  "roomId (Some []) (lit ''usr_9'') (Some (lit ''usr_10''))
     = roomId (Some []) (lit ''usr_10'') (Some (lit ''usr_9'')) \<and>
   roomId (Some []) (lit ''usr_9'') (Some (lit ''usr_10'')) = lit ''dm-usr_10-usr_9''"
proof -
  have dm: "\<not> truthy (Some [])" by simp
  have ne: "lit ''usr_9'' \<noteq> lit ''usr_10''" by (simp add: lit_def)
  show ?thesis
    using roomId_symmetric [OF dm ne] by (auto simp add: lit_def)
qed


section \<open>Properties of the live intake\<close>

lemma lit_typing_chat [simp]: "lit ''typing'' \<noteq> lit ''chat''"
  by (simp add: lit_def)

lemma toMessage_id [simp]: "msg_id (toMessage uid rm) = rt_id rm"
  by (simp add: toMessage_def)

lemma onMessage_chat:
  "rt_type rm = lit ''chat'' \<Longrightarrow>
   onMessage uid now rm s =
     s\<lparr>messages := (if list_ex (\<lambda>msg. msg_id msg = rt_id rm) (messages s)
                     then messages s else messages s @ [toMessage uid rm])\<rparr>"
  by (simp add: onMessage_def Let_def)

text \<open>
  C2. A \<open>chat\<close> event whose id is already in the transcript leaves the whole state as it
  is.  Hence a second delivery of the same id, whoever the listener and whatever the
  instant, changes nothing after the first, and the two deliveries together add one entry
  with that id when there was none and no entry when there was one.
\<close>

theorem live_intake_deduplicates:
  assumes chat: "rt_type rm = lit ''chat''"
  shows "(list_ex (\<lambda>msg. msg_id msg = rt_id rm) (messages s) \<longrightarrow> onMessage uid now rm s = s) \<and>
         (rt_type rm' = lit ''chat'' \<and> rt_id rm' = rt_id rm \<longrightarrow>
            onMessage uid' now' rm' (onMessage uid now rm s) = onMessage uid now rm s \<and>
            entries (rt_id rm) (onMessage uid' now' rm' (onMessage uid now rm s)) =
              (if entries (rt_id rm) s = 0 then 1 else entries (rt_id rm) s))"
proof (intro conjI impI)
  assume "list_ex (\<lambda>msg. msg_id msg = rt_id rm) (messages s)"
  then show "onMessage uid now rm s = s"
    by (simp add: onMessage_chat [OF chat])
next
  assume again: "rt_type rm' = lit ''chat'' \<and> rt_id rm' = rt_id rm"
  have present: "list_ex (\<lambda>msg. msg_id msg = rt_id rm) (messages (onMessage uid now rm s))"
    by (simp add: onMessage_chat [OF chat] list_ex_iff)
  show twice: "onMessage uid' now' rm' (onMessage uid now rm s) = onMessage uid now rm s"
    using again present by (simp add: onMessage_chat [of rm'])
  have absent: "entries (rt_id rm) s = 0 \<longleftrightarrow> \<not> list_ex (\<lambda>msg. msg_id msg = rt_id rm) (messages s)"
    by (auto simp add: entries_def list_ex_iff filter_empty_conv)
  have once: "entries (rt_id rm) (onMessage uid now rm s) =
              (if entries (rt_id rm) s = 0 then 1 else entries (rt_id rm) s)"
    unfolding absent
    by (simp add: onMessage_chat [OF chat] entries_def list_ex_iff filter_empty_conv)
  show "entries (rt_id rm) (onMessage uid' now' rm' (onMessage uid now rm s)) =
              (if entries (rt_id rm) s = 0 then 1 else entries (rt_id rm) s)"
    by (simp only: twice once)
qed

theorem live_intake_deduplicates_witness:
  "entries (lit ''m1'')
     (onMessage (lit ''usr_1'') 20 (chatFrom (lit ''m1'') (lit ''usr_2'') (lit ''Bob'') (lit ''hi'') 5)
        (onMessage (lit ''usr_1'') 10 (chatFrom (lit ''m1'') (lit ''usr_2'') (lit ''Bob'') (lit ''hi'') 5)
           (init (Some (lit ''general'')) (Some [])))) = 1
   \<and> onMessage (lit ''usr_1'') 20 (chatFrom (lit ''m1'') (lit ''usr_2'') (lit ''Bob'') (lit ''hi'') 5)
        (onMessage (lit ''usr_1'') 10 (chatFrom (lit ''m1'') (lit ''usr_2'') (lit ''Bob'') (lit ''hi'') 5)
           (init (Some (lit ''general'')) (Some [])))
     = onMessage (lit ''usr_1'') 10 (chatFrom (lit ''m1'') (lit ''usr_2'') (lit ''Bob'') (lit ''hi'') 5)
           (init (Some (lit ''general'')) (Some []))"
proof -
  let ?rm = "chatFrom (lit ''m1'') (lit ''usr_2'') (lit ''Bob'') (lit ''hi'') 5"
  let ?s0 = "init (Some (lit ''general'')) (Some [])"
  let ?s1 = "onMessage (lit ''usr_1'') 10 ?rm ?s0"
  have chat: "rt_type ?rm = lit ''chat''" by (simp add: chatFrom_def)
  have id: "rt_id ?rm = lit ''m1''" by (simp add: chatFrom_def)
  have none: "entries (lit ''m1'') ?s0 = 0" by (simp add: entries_def init_def)
  have there: "list_ex (\<lambda>msg. msg_id msg = rt_id ?rm) (messages ?s1)"
    by (simp add: onMessage_chat [OF chat] init_def)
  have "onMessage (lit ''usr_1'') 20 ?rm ?s1 = ?s1"
    using live_intake_deduplicates [OF chat, of ?s1 "lit ''usr_1''" 20] there by blast
  moreover have "entries (rt_id ?rm) (onMessage (lit ''usr_1'') 20 ?rm ?s1) =
      (if entries (rt_id ?rm) ?s0 = 0 then 1 else entries (rt_id ?rm) ?s0)"
    using live_intake_deduplicates [OF chat, of ?s0 "lit ''usr_1''" 10 ?rm "lit ''usr_1''" 20]
      chat by blast
  then have "entries (lit ''m1'') (onMessage (lit ''usr_1'') 20 ?rm ?s1) = 1"
    by (simp only: id none refl if_True)
  ultimately show ?thesis by (rule conjI [rotated])
qed

text \<open>
  C10. A \<open>typing\<close> event whose sender is the user of the listening session changes
  nothing: no name is added to or removed from the typing list, and no timer is armed.
\<close>

theorem own_typing_ignored:
  "rt_type rm = lit ''typing'' \<Longrightarrow> rt_userId rm = uid \<Longrightarrow>
     onMessage uid now rm s = s \<and>
     typingUsers (dispatch (Received r uid rm) now s) = typingUsers s \<and>
     timers (dispatch (Received r uid rm) now s) = timers s"
  by (simp add: onMessage_def Let_def)

theorem own_typing_ignored_witness:
  "onMessage (lit ''usr_1'') 10 (typingFrom (lit ''usr_1'') (lit ''Alice'') True 9)
     ((init None (Some (lit ''usr_2'')))\<lparr>typingUsers := [lit ''Bob'']\<rparr>)
   = (init None (Some (lit ''usr_2'')))\<lparr>typingUsers := [lit ''Bob'']\<rparr>"
proof -
  have ty: "rt_type (typingFrom (lit ''usr_1'') (lit ''Alice'') True 9) = lit ''typing''"
    by (simp add: typingFrom_def)
  have own: "rt_userId (typingFrom (lit ''usr_1'') (lit ''Alice'') True 9) = lit ''usr_1''"
    by (simp add: typingFrom_def)
  show ?thesis
    using own_typing_ignored [OF ty own] by simp
qed


section \<open>What the passing of time changes\<close>


lemma sendTypingIndicator_frame:
  "message (sendTypingIndicator u b t s) = message s"
  "messages (sendTypingIndicator u b t s) = messages s"
  "user (sendTypingIndicator u b t s) = user s"
  "loading (sendTypingIndicator u b t s) = loading s"
  "typingUsers (sendTypingIndicator u b t s) = typingUsers s"
  "attachments (sendTypingIndicator u b t s) = attachments s"
  "uploading (sendTypingIndicator u b t s) = uploading s"
  "channelRef (sendTypingIndicator u b t s) = channelRef s"
  "typingTimeoutRef (sendTypingIndicator u b t s) = typingTimeoutRef s"
  "channelId (sendTypingIndicator u b t s) = channelId s"
  "dmId (sendTypingIndicator u b t s) = dmId s"
  "timers (sendTypingIndicator u b t s) = timers s"
  "nextHandle (sendTypingIndicator u b t s) = nextHandle s"
  "console (sendTypingIndicator u b t s) = console s"
  "listeners (sendTypingIndicator u b t s) = listeners s"
  "uploadCalls (sendTypingIndicator u b t s) = uploadCalls s"
  by (simp_all add: sendTypingIndicator_def split: option.splits)

lemma fire_frame:
  "message (fire tm s) = message s"
  "messages (fire tm s) = messages s"
  "user (fire tm s) = user s"
  "loading (fire tm s) = loading s"
  "attachments (fire tm s) = attachments s"
  "uploading (fire tm s) = uploading s"
  "channelRef (fire tm s) = channelRef s"
  "channelId (fire tm s) = channelId s"
  "dmId (fire tm s) = dmId s"
  "timers (fire tm s) = timers s"
  "nextHandle (fire tm s) = nextHandle s"
  "console (fire tm s) = console s"
  "listeners (fire tm s) = listeners s"
  "uploadCalls (fire tm s) = uploadCalls s"
  by (simp_all add: fire_def sendTypingIndicator_frame split: timer_action.splits)

lemma fires_frame:
  "message (foldl (\<lambda>st tm. fire tm st) s ts) = message s"
  "messages (foldl (\<lambda>st tm. fire tm st) s ts) = messages s"
  "user (foldl (\<lambda>st tm. fire tm st) s ts) = user s"
  "loading (foldl (\<lambda>st tm. fire tm st) s ts) = loading s"
  "attachments (foldl (\<lambda>st tm. fire tm st) s ts) = attachments s"
  "uploading (foldl (\<lambda>st tm. fire tm st) s ts) = uploading s"
  "channelRef (foldl (\<lambda>st tm. fire tm st) s ts) = channelRef s"
  "channelId (foldl (\<lambda>st tm. fire tm st) s ts) = channelId s"
  "dmId (foldl (\<lambda>st tm. fire tm st) s ts) = dmId s"
  "timers (foldl (\<lambda>st tm. fire tm st) s ts) = timers s"
  "nextHandle (foldl (\<lambda>st tm. fire tm st) s ts) = nextHandle s"
  "console (foldl (\<lambda>st tm. fire tm st) s ts) = console s"
  "listeners (foldl (\<lambda>st tm. fire tm st) s ts) = listeners s"
  "uploadCalls (foldl (\<lambda>st tm. fire tm st) s ts) = uploadCalls s"
  by (induction ts arbitrary: s; simp add: fire_frame)+

lemma advance_frame:
  "message (advance T s) = message s"
  "messages (advance T s) = messages s"
  "user (advance T s) = user s"
  "loading (advance T s) = loading s"
  "attachments (advance T s) = attachments s"
  "uploading (advance T s) = uploading s"
  "channelRef (advance T s) = channelRef s"
  "channelId (advance T s) = channelId s"
  "dmId (advance T s) = dmId s"
  "nextHandle (advance T s) = nextHandle s"
  "console (advance T s) = console s"
  "listeners (advance T s) = listeners s"
  "uploadCalls (advance T s) = uploadCalls s"
  by (simp_all add: advance_def fires_frame)

lemma advance_timers: "timers (advance T s) = filter (\<lambda>tm. T < due tm) (timers s)"
  by (simp add: advance_def fires_frame)

lemma fires_typingUsers:
  "typingUsers (foldl (\<lambda>st tm. fire tm st) s ts) =
     filter (\<lambda>n. ExpireTyper n \<notin> action ` set ts) (typingUsers s)"
proof (induction ts arbitrary: s)
  case Nil
  show ?case by simp
next
  case (Cons tm ts)
  have one: "typingUsers (fire tm s) = filter (\<lambda>n. ExpireTyper n \<noteq> action tm) (typingUsers s)"
    by (cases "action tm") (auto simp add: fire_def sendTypingIndicator_frame intro: filter_cong)
  show ?case
    by (auto simp add: Cons.IH one intro: filter_cong)
qed

lemma advance_typingUsers:
  "typingUsers (advance T s) =
     filter (\<lambda>n. \<forall>tm \<in> set (timers s). due tm \<le> T \<longrightarrow> action tm \<noteq> ExpireTyper n) (typingUsers s)"
  by (simp add: advance_def fires_typingUsers) (force intro!: filter_cong)



section \<open>Typing indicators, receiver side\<close>


lemma onMessage_typing:
  "rt_type rm = lit ''typing'' \<Longrightarrow> rt_userId rm \<noteq> uid \<Longrightarrow>
   onMessage uid now rm s =
     (if d_isTyping (rt_data rm)
      then s\<lparr>typingUsers := (if typerName rm \<in> set (typingUsers s) then typingUsers s
                               else typingUsers s @ [typerName rm]),
             timers := timers s @ [\<lparr>handle = nextHandle s, due = now + 3000,
                                    action = ExpireTyper (typerName rm)\<rparr>],
             nextHandle := Suc (nextHandle s)\<rparr>
      else s\<lparr>typingUsers := filter (\<lambda>name. name \<noteq> typerName rm) (typingUsers s)\<rparr>)"
  by (simp add: onMessage_def Let_def typerName_def setTimeout_def)

text \<open>
  C8. A \<open>typing\<close> event from another participant that says "typing" lists the sender's
  display name if it is not listed yet and arms a timer due 3000 ms later; once that
  instant has passed the name is no longer listed, with no further event needed, and
  until then it stays listed unless an expiry armed earlier for the same name removes it.
  An event that says "not typing" removes the name at once and arms nothing.
\<close>

theorem typing_auto_expiry:
  assumes ty: "rt_type rm = lit ''typing''" and other: "rt_userId rm \<noteq> uid"
  shows "(d_isTyping (rt_data rm) \<longrightarrow>
            typingUsers (onMessage uid now rm s) =
              (if typerName rm \<in> set (typingUsers s) then typingUsers s
               else typingUsers s @ [typerName rm])
          \<and> timers (onMessage uid now rm s) =
              timers s @ [\<lparr>handle = nextHandle s, due = now + 3000,
                           action = ExpireTyper (typerName rm)\<rparr>]
          \<and> (\<forall>T. now + 3000 \<le> T \<longrightarrow>
                typerName rm \<notin> set (typingUsers (advance T (onMessage uid now rm s))))
          \<and> (\<forall>T. T < now + 3000 \<and> (\<forall>tm \<in> set (timers s). action tm \<noteq> ExpireTyper (typerName rm)) \<longrightarrow>
                typerName rm \<in> set (typingUsers (advance T (onMessage uid now rm s)))))
       \<and> (\<not> d_isTyping (rt_data rm) \<longrightarrow>
            typingUsers (onMessage uid now rm s) =
              filter (\<lambda>name. name \<noteq> typerName rm) (typingUsers s)
          \<and> typerName rm \<notin> set (typingUsers (onMessage uid now rm s))
          \<and> timers (onMessage uid now rm s) = timers s)"
proof (intro conjI impI allI)
  assume start: "d_isTyping (rt_data rm)"
  let ?s' = "onMessage uid now rm s"
  let ?tm = "\<lparr>handle = nextHandle s, due = now + 3000, action = ExpireTyper (typerName rm)\<rparr>"
  show users: "typingUsers ?s' =
      (if typerName rm \<in> set (typingUsers s) then typingUsers s
       else typingUsers s @ [typerName rm])"
    using start by (simp add: onMessage_typing [OF ty other])
  show armed: "timers ?s' = timers s @ [?tm]"
    using start by (simp add: onMessage_typing [OF ty other])
  have listed: "typerName rm \<in> set (typingUsers ?s')"
    by (simp add: users)
  { fix T assume late: "now + 3000 \<le> T"
    have "?tm \<in> set (timers ?s')" by (simp add: armed)
    with late have "\<exists>tm \<in> set (timers ?s'). due tm \<le> T \<and> action tm = ExpireTyper (typerName rm)"
      by (intro bexI [of _ ?tm]) simp_all
    then show "typerName rm \<notin> set (typingUsers (advance T ?s'))"
      by (simp add: advance_typingUsers) }
  { fix T
    assume early: "T < now + 3000 \<and> (\<forall>tm \<in> set (timers s). action tm \<noteq> ExpireTyper (typerName rm))"
    then show "typerName rm \<in> set (typingUsers (advance T ?s'))"
      using listed by (auto simp add: advance_typingUsers armed) }
next
  assume stop: "\<not> d_isTyping (rt_data rm)"
  then show "typingUsers (onMessage uid now rm s) =
      filter (\<lambda>name. name \<noteq> typerName rm) (typingUsers s)"
    by (simp add: onMessage_typing [OF ty other])
  from stop show "typerName rm \<notin> set (typingUsers (onMessage uid now rm s))"
    by (simp add: onMessage_typing [OF ty other])
  from stop show "timers (onMessage uid now rm s) = timers s"
    by (simp add: onMessage_typing [OF ty other])
qed

theorem typing_auto_expiry_witness:
  "typingUsers (onMessage (lit ''usr_1'') 100 (typingFrom (lit ''usr_2'') (lit ''Bob'') True 90)
                  (init (Some (lit ''general'')) (Some []))) = [lit ''Bob'']
   \<and> lit ''Bob'' \<in> set (typingUsers (advance 3099
         (onMessage (lit ''usr_1'') 100 (typingFrom (lit ''usr_2'') (lit ''Bob'') True 90)
                  (init (Some (lit ''general'')) (Some [])))))
   \<and> lit ''Bob'' \<notin> set (typingUsers (advance 3100
         (onMessage (lit ''usr_1'') 100 (typingFrom (lit ''usr_2'') (lit ''Bob'') True 90)
                  (init (Some (lit ''general'')) (Some [])))))
   \<and> lit ''Bob'' \<notin> set (typingUsers
         (onMessage (lit ''usr_1'') 200 (typingFrom (lit ''usr_2'') (lit ''Bob'') False 190)
            (onMessage (lit ''usr_1'') 100 (typingFrom (lit ''usr_2'') (lit ''Bob'') True 90)
                  (init (Some (lit ''general'')) (Some [])))))"
proof -
  let ?start = "typingFrom (lit ''usr_2'') (lit ''Bob'') True 90"
  let ?stop = "typingFrom (lit ''usr_2'') (lit ''Bob'') False 190"
  let ?s0 = "init (Some (lit ''general'')) (Some [])"
  have ty: "rt_type ?start = lit ''typing''" "rt_type ?stop = lit ''typing''"
    by (simp_all add: typingFrom_def)
  have other: "rt_userId ?start \<noteq> lit ''usr_1''" "rt_userId ?stop \<noteq> lit ''usr_1''"
    by (simp_all add: typingFrom_def lit_def)
  have name: "typerName ?start = lit ''Bob''" "typerName ?stop = lit ''Bob''"
    by (simp_all add: typerName_def typingFrom_def js_or_lit_def lit_def)
  have flag: "d_isTyping (rt_data ?start)" "\<not> d_isTyping (rt_data ?stop)"
    by (simp_all add: typingFrom_def)
  have idle: "typingUsers ?s0 = []" "timers ?s0 = []"
    by (simp_all add: init_def)
  note start = typing_auto_expiry [OF ty(1) other(1), of 100 ?s0, unfolded name]
  note stop = typing_auto_expiry [OF ty(2) other(2), of 200 "onMessage (lit ''usr_1'') 100 ?start ?s0",
      unfolded name]
  have a: "typingUsers (onMessage (lit ''usr_1'') 100 ?start ?s0) = [lit ''Bob'']"
    using start flag(1) by (simp add: idle)
  have b: "lit ''Bob'' \<in> set (typingUsers (advance 3099 (onMessage (lit ''usr_1'') 100 ?start ?s0)))"
    using start flag(1) by (simp add: idle)
  have c: "lit ''Bob'' \<notin> set (typingUsers (advance 3100 (onMessage (lit ''usr_1'') 100 ?start ?s0)))"
    using start flag(1) by simp
  have d: "lit ''Bob'' \<notin> set (typingUsers (onMessage (lit ''usr_1'') 200 ?stop
              (onMessage (lit ''usr_1'') 100 ?start ?s0)))"
    using stop flag(2) by blast
  from a b c d show ?thesis by blast
qed



section \<open>Backlog fetch\<close>


lemma settle_frame:
  "message (settle op s) = message s"
  "messages (settle op s) = messages s"
  "user (settle op s) = user s"
  "loading (settle op s) = loading s"
  "typingUsers (settle op s) = typingUsers s"
  "attachments (settle op s) = attachments s"
  "uploading (settle op s) = uploading s"
  "channelRef (settle op s) = channelRef s"
  "typingTimeoutRef (settle op s) = typingTimeoutRef s"
  "channelId (settle op s) = channelId s"
  "dmId (settle op s) = dmId s"
  "timers (settle op s) = timers s"
  "published (settle op s) = published s"
  "console (settle op s) = console s"
  "uploadCalls (settle op s) = uploadCalls s"
  by (simp_all add: settle_def)

text \<open>
  C6. When the backlog fetch in flight is rejected, the transcript becomes the single
  welcome message, authored by \<open>System\<close> and not own; the rejection goes to the
  console, and no other cell that the component renders changes.
\<close>

theorem backlog_failure_fallback:
  assumes inflight: "Fetching r uid \<in> set (pending s)"
  shows "messages (dispatch (BacklogSettled r uid None) now s) = [welcomeMessage now]
       \<and> author_name (msg_user (welcomeMessage now)) = lit ''System''
       \<and> isOwn (welcomeMessage now) = None
       \<and> console (dispatch (BacklogSettled r uid None) now s)
            = console s @ [lit ''Failed to load messages:'']
       \<and> message (dispatch (BacklogSettled r uid None) now s) = message s
       \<and> attachments (dispatch (BacklogSettled r uid None) now s) = attachments s
       \<and> typingUsers (dispatch (BacklogSettled r uid None) now s) = typingUsers s
       \<and> uploading (dispatch (BacklogSettled r uid None) now s) = uploading s
       \<and> loading (dispatch (BacklogSettled r uid None) now s) = loading s
       \<and> user (dispatch (BacklogSettled r uid None) now s) = user s"
  using inflight by (simp add: backlogSettled_def settle_frame welcomeMessage_def)

theorem backlog_failure_fallback_witness:
  "messages (run (init (Some (lit ''general'')) (Some []))
      [(0, AuthStateChanged (Some alice) False),
       (40, SubscribeSettled (lit ''channel-general'') (lit ''usr_1'') True),
       (90, BacklogSettled (lit ''channel-general'') (lit ''usr_1'') None)])
   = [welcomeMessage 90]"
proof -
  let ?s = "run (init (Some (lit ''general'')) (Some []))
      [(0, AuthStateChanged (Some alice) False),
       (40, SubscribeSettled (lit ''channel-general'') (lit ''usr_1'') True)]"
  have p: "pending ?s = [Fetching (lit ''channel-general'') (lit ''usr_1'')]"
    by (simp add: run_def step_def advance_def init_def authStateChanged_def userDeps_def
        alice_def setupEffect_def cleanup_def resolveRoom_def roomId_def userId_def
        subscribeSettled_def settle_def lit_def)
  have t: "timers ?s = []"
    by (simp add: run_def step_def advance_def init_def authStateChanged_def userDeps_def
        alice_def setupEffect_def cleanup_def resolveRoom_def roomId_def userId_def
        subscribeSettled_def settle_def lit_def)
  have idle: "advance 90 ?s = ?s"
    by (simp add: advance_def t)
  have "messages (dispatch (BacklogSettled (lit ''channel-general'') (lit ''usr_1'') None) 90 ?s)
          = [welcomeMessage 90]"
    using backlog_failure_fallback [of "lit ''channel-general''" "lit ''usr_1''" ?s 90]
    by (simp only: p list.set insertI1 simp_thms)
  moreover have "run (init (Some (lit ''general'')) (Some []))
      [(0, AuthStateChanged (Some alice) False),
       (40, SubscribeSettled (lit ''channel-general'') (lit ''usr_1'') True),
       (90, BacklogSettled (lit ''channel-general'') (lit ''usr_1'') None)]
     = step ?s (90, BacklogSettled (lit ''channel-general'') (lit ''usr_1'') None)"
    by (simp add: run_def)
  ultimately show ?thesis
    by (simp only: step_def fst_conv snd_conv idle)
qed




section \<open>Send fallback and upload failure\<close>

text \<open>
  C4. A send that passes the guard publishes once, with the text and attachments of the
  composer.  When that publish is rejected, at whatever later instant and state, exactly
  one message is appended to the transcript: own, with the text that was sent and the
  instant of the rejection as timestamp; the input and the stage are emptied, and nothing
  is published again, nor is any new promise left in flight.
\<close>

theorem send_fallback:
  assumes guard: "trim (message s0) \<noteq> [] \<or> attachments s0 \<noteq> []"
    and usr: "user s0 = Some u" "user_id u \<noteq> []"
    and chan: "channelRef s0 = Some r"
  shows "published (handleSendMessage t0 s0) =
           published s0 @ [PublishChat r (message s0) (attachments s0) t0 (user_id u) (metadataOf u)]
       \<and> Publishing (message s0) (attachments s0) u \<in> set (pending (handleSendMessage t0 s0))
       \<and> (\<forall>s t1. Publishing (message s0) (attachments s0) u \<in> set (pending s) \<longrightarrow>
            messages (dispatch (PublishSettled (message s0) (attachments s0) u False) t1 s) =
              messages s @ [fallbackMessage (message s0) (attachments s0) u t1]
          \<and> content (fallbackMessage (message s0) (attachments s0) u t1) = message s0
          \<and> isOwn (fallbackMessage (message s0) (attachments s0) u t1) = Some True
          \<and> timestamp (fallbackMessage (message s0) (attachments s0) u t1) = int t1
          \<and> message (dispatch (PublishSettled (message s0) (attachments s0) u False) t1 s) = []
          \<and> attachments (dispatch (PublishSettled (message s0) (attachments s0) u False) t1 s) = []
          \<and> published (dispatch (PublishSettled (message s0) (attachments s0) u False) t1 s) =
              published s
          \<and> pending (dispatch (PublishSettled (message s0) (attachments s0) u False) t1 s) =
              remove1 (Publishing (message s0) (attachments s0) u) (pending s))"
proof (intro conjI allI impI)
  have sent: "handleSendMessage t0 s0 =
      s0\<lparr>published := published s0 @
                [PublishChat r (message s0) (attachments s0) t0 (user_id u) (metadataOf u)],
         pending := pending s0 @ [Publishing (message s0) (attachments s0) u]\<rparr>"
    using guard usr chan by (auto simp add: handleSendMessage_def userId_def)
  show "published (handleSendMessage t0 s0) =
           published s0 @ [PublishChat r (message s0) (attachments s0) t0 (user_id u) (metadataOf u)]"
    by (simp add: sent)
  show "Publishing (message s0) (attachments s0) u \<in> set (pending (handleSendMessage t0 s0))"
    by (simp add: sent)
next
  fix s :: chat_state and t1 :: nat
  assume inflight: "Publishing (message s0) (attachments s0) u \<in> set (pending s)"
  let ?s' = "dispatch (PublishSettled (message s0) (attachments s0) u False) t1 s"
  have eq: "?s' = publishRejected (message s0) (attachments s0) u t1
                    (settle (Publishing (message s0) (attachments s0) u) s)"
    using inflight by simp
  show "messages ?s' = messages s @ [fallbackMessage (message s0) (attachments s0) u t1]"
    by (simp only: eq) (simp add: publishRejected_def settle_def)
  show "message ?s' = []" by (simp only: eq) (simp add: publishRejected_def)
  show "attachments ?s' = []" by (simp only: eq) (simp add: publishRejected_def)
  show "published ?s' = published s" by (simp only: eq) (simp add: publishRejected_def settle_def)
  show "pending ?s' = remove1 (Publishing (message s0) (attachments s0) u) (pending s)"
    by (simp only: eq) (simp add: publishRejected_def settle_def)
  show "content (fallbackMessage (message s0) (attachments s0) u t1) = message s0"
    by (simp add: fallbackMessage_def)
  show "isOwn (fallbackMessage (message s0) (attachments s0) u t1) = Some True"
    by (simp add: fallbackMessage_def)
  show "timestamp (fallbackMessage (message s0) (attachments s0) u t1) = int t1"
    by (simp add: fallbackMessage_def)
qed

lemma uploadLoop_fails:
  "None \<in> snd ` set answers \<Longrightarrow> uploadLoop answers acc = None"
  by (induction answers acc rule: uploadLoop.induct) auto

lemma uploadsStarted_fails:
  "None \<in> snd ` set answers \<Longrightarrow>
     \<exists>before f after. answers = before @ (f, None) # after \<and> None \<notin> snd ` set before
        \<and> uploadsStarted answers = map fst before @ [f]"
proof (induction answers rule: uploadsStarted.induct)
  case 1
  then show ?case by simp
next
  case (2 f0 rest)
  have "(f0, None) # rest = [] @ (f0, None) # rest \<and> None \<notin> snd ` set []
      \<and> uploadsStarted ((f0, None) # rest) = map fst [] @ [f0]"
    by simp
  then show ?case by blast
next
  case (3 f0 publicUrl rest)
  then have "None \<in> snd ` set rest" by auto
  with 3 obtain before f after where
    split: "rest = before @ (f, None) # after" "None \<notin> snd ` set before"
      "uploadsStarted rest = map fst before @ [f]"
    by blast
  have "(f0, Some publicUrl) # rest = ((f0, Some publicUrl) # before) @ (f, None) # after
      \<and> None \<notin> snd ` set ((f0, Some publicUrl) # before)
      \<and> uploadsStarted ((f0, Some publicUrl) # rest) = map fst ((f0, Some publicUrl) # before) @ [f]"
    using split by simp
  then show ?case by blast
qed

text \<open>
  C9. When an upload of a batch is rejected, the stage is what it was before the batch,
  also when earlier files of the batch were stored; the busy flag is lowered, the text
  and the transcript are untouched, the error goes to the console, and the storage was
  called for the files up to the rejected one, once each, and for none after it.
\<close>

theorem upload_failure_atomic:
  assumes inflight: "Uploading (map fst answers) \<in> set (pending s)"
    and failed: "None \<in> snd ` set answers"
  shows "attachments (dispatch (UploadsSettled answers) now s) = attachments s
       \<and> uploading (dispatch (UploadsSettled answers) now s) = False
       \<and> console (dispatch (UploadsSettled answers) now s)
            = console s @ [lit ''Failed to upload files:'']
       \<and> message (dispatch (UploadsSettled answers) now s) = message s
       \<and> messages (dispatch (UploadsSettled answers) now s) = messages s
       \<and> pending (dispatch (UploadsSettled answers) now s)
            = remove1 (Uploading (map fst answers)) (pending s)
       \<and> (\<exists>before f after.
             answers = before @ (f, None) # after \<and> None \<notin> snd ` set before
             \<and> uploadCalls (dispatch (UploadsSettled answers) now s)
                 = uploadCalls s @ map fst before @ [f])"
proof -
  let ?s' = "dispatch (UploadsSettled answers) now s"
  have eq: "?s' = uploadsSettled answers (settle (Uploading (map fst answers)) s)"
    using inflight by simp
  have loop: "uploadLoop answers [] = None"
    using failed by (rule uploadLoop_fails)
  have calls: "uploadCalls ?s' = uploadCalls s @ uploadsStarted answers"
    by (simp only: eq) (simp add: uploadsSettled_def loop settle_def)
  have fields: "attachments ?s' = attachments s" "uploading ?s' = False"
    "console ?s' = console s @ [lit ''Failed to upload files:'']"
    "message ?s' = message s" "messages ?s' = messages s"
    "pending ?s' = remove1 (Uploading (map fst answers)) (pending s)"
    by (simp only: eq, simp add: uploadsSettled_def loop settle_def)+
  from uploadsStarted_fails [OF failed] calls
  have "\<exists>before f after.
             answers = before @ (f, None) # after \<and> None \<notin> snd ` set before
             \<and> uploadCalls ?s' = uploadCalls s @ map fst before @ [f]"
    by metis
  with fields show ?thesis by blast
qed


theorem send_fallback_witness:
  "messages (dispatch (PublishSettled (lit ''hello'') [] alice False) 300
               (handleSendMessage 200 (composing (lit ''hello''))))
     = [fallbackMessage (lit ''hello'') [] alice 300]
   \<and> content (fallbackMessage (lit ''hello'') [] alice 300) = lit ''hello''
   \<and> isOwn (fallbackMessage (lit ''hello'') [] alice 300) = Some True
   \<and> message (dispatch (PublishSettled (lit ''hello'') [] alice False) 300
               (handleSendMessage 200 (composing (lit ''hello'')))) = []
   \<and> published (dispatch (PublishSettled (lit ''hello'') [] alice False) 300
               (handleSendMessage 200 (composing (lit ''hello''))))
     = [PublishChat (lit ''channel-general'') (lit ''hello'') [] 200 (user_id alice) (metadataOf alice)]"
proof -
  let ?s0 = "composing (lit ''hello'')"
  have guard: "trim (message ?s0) \<noteq> [] \<or> attachments ?s0 \<noteq> []"
    by (simp add: composing_def trim_def is_ws_def lit_def)
  have usr: "user ?s0 = Some alice" "user_id alice \<noteq> []"
    by (simp_all add: composing_def alice_def lit_def)
  have chan: "channelRef ?s0 = Some (lit ''channel-general'')"
    by (simp add: composing_def)
  have cells: "message ?s0 = lit ''hello''" "attachments ?s0 = []" "messages ?s0 = []"
    "published ?s0 = []"
    by (simp_all add: composing_def init_def)
  have sent: "messages (handleSendMessage 200 ?s0) = []"
    by (simp add: handleSendMessage_def cells)
  note fb = send_fallback [OF guard usr chan, of 200, unfolded cells]
  from fb have pub: "published (handleSendMessage 200 ?s0) =
      [] @ [PublishChat (lit ''channel-general'') (lit ''hello'') [] 200 (user_id alice) (metadataOf alice)]"
    by (rule conjunct1)
  from fb have inflight: "Publishing (lit ''hello'') [] alice \<in> set (pending (handleSendMessage 200 ?s0))"
    by blast
  from fb have "\<forall>s t1. Publishing (lit ''hello'') [] alice \<in> set (pending s) \<longrightarrow>
            messages (dispatch (PublishSettled (lit ''hello'') [] alice False) t1 s) =
              messages s @ [fallbackMessage (lit ''hello'') [] alice t1]
          \<and> content (fallbackMessage (lit ''hello'') [] alice t1) = lit ''hello''
          \<and> isOwn (fallbackMessage (lit ''hello'') [] alice t1) = Some True
          \<and> timestamp (fallbackMessage (lit ''hello'') [] alice t1) = int t1
          \<and> message (dispatch (PublishSettled (lit ''hello'') [] alice False) t1 s) = []
          \<and> attachments (dispatch (PublishSettled (lit ''hello'') [] alice False) t1 s) = []
          \<and> published (dispatch (PublishSettled (lit ''hello'') [] alice False) t1 s) =
              published s
          \<and> pending (dispatch (PublishSettled (lit ''hello'') [] alice False) t1 s) =
              remove1 (Publishing (lit ''hello'') [] alice) (pending s)"
    by (elim conjE)
  from this [rule_format, OF inflight, of 300] show ?thesis
    by (simp only: sent pub append_Nil simp_thms)
qed

theorem upload_failure_atomic_witness:
  "attachments (dispatch (UploadsSettled [(fileNamed (lit ''a.png''), Some (lit ''https://cdn/a.png'')),
                                         (fileNamed (lit ''b.png''), None)]) 500
      (handleFileUpload [fileNamed (lit ''a.png''), fileNamed (lit ''b.png'')]
         (composing (lit ''see attached'')))) = []
   \<and> \<not> uploading (dispatch (UploadsSettled [(fileNamed (lit ''a.png''), Some (lit ''https://cdn/a.png'')),
                                         (fileNamed (lit ''b.png''), None)]) 500
      (handleFileUpload [fileNamed (lit ''a.png''), fileNamed (lit ''b.png'')]
         (composing (lit ''see attached''))))
   \<and> message (dispatch (UploadsSettled [(fileNamed (lit ''a.png''), Some (lit ''https://cdn/a.png'')),
                                         (fileNamed (lit ''b.png''), None)]) 500
      (handleFileUpload [fileNamed (lit ''a.png''), fileNamed (lit ''b.png'')]
         (composing (lit ''see attached'')))) = lit ''see attached''"
proof -
  let ?answers = "[(fileNamed (lit ''a.png''), Some (lit ''https://cdn/a.png'')),
                   (fileNamed (lit ''b.png''), None)]"
  let ?s = "handleFileUpload [fileNamed (lit ''a.png''), fileNamed (lit ''b.png'')]
              (composing (lit ''see attached''))"
  have inflight: "Uploading (map fst ?answers) \<in> set (pending ?s)"
    by (simp add: handleFileUpload_def)
  have failed: "None \<in> snd ` set ?answers"
    by simp
  have cells: "attachments ?s = []" "message ?s = lit ''see attached''"
    by (simp_all add: handleFileUpload_def composing_def init_def)
  from upload_failure_atomic [OF inflight failed, of 500] show ?thesis
    by (simp add: cells)
qed



section \<open>Typing indicators, sender side\<close>


lemma fire_published:
  "channelRef s = Some r \<Longrightarrow> published (fire tm s) = published s @ stopSignal r tm"
  by (simp add: fire_def stopSignal_def sendTypingIndicator_def
      split: timer_action.splits option.splits)

lemma fires_published:
  "channelRef s = Some r \<Longrightarrow>
     published (foldl (\<lambda>st tm. fire tm st) s ts) = published s @ concat (map (stopSignal r) ts)"
proof (induction ts arbitrary: s)
  case Nil
  show ?case by simp
next
  case (Cons tm ts)
  have "channelRef (fire tm s) = Some r"
    using Cons.prems by (simp add: fire_frame)
  from Cons.IH [OF this] show ?case
    by (simp add: fire_published [OF Cons.prems])
qed

lemma stopSignal_other: "\<not> isStopTimer tm \<Longrightarrow> stopSignal r tm = []"
  by (simp add: stopSignal_def isStopTimer_def split: timer_action.splits)

lemma concat_stopSignal:
  "concat (map (stopSignal r) ts) = concat (map (stopSignal r) (filter isStopTimer ts))"
  by (induction ts) (simp_all add: stopSignal_other)

lemma due_stop_timers:
  "filter isStopTimer (sort_key due (filter (\<lambda>tm. due tm \<le> T) ts))
     = sort_key due (filter (\<lambda>tm. due tm \<le> T) (filter isStopTimer ts))"
proof -
  have "filter isStopTimer (filter (\<lambda>tm. due tm \<le> T) ts)
          = filter (\<lambda>tm. due tm \<le> T) (filter isStopTimer ts)"
    by (simp add: conj_commute)
  then show ?thesis
    by (simp add: filter_sort)
qed

lemma advance_published:
  assumes "channelRef s = Some r"
  shows "published (advance T s) =
     published s @
       concat (map (stopSignal r)
         (sort_key due (filter (\<lambda>tm. due tm \<le> T) (filter isStopTimer (timers s)))))"
proof -
  let ?s = "s\<lparr>timers := filter (\<lambda>tm. T < due tm) (timers s)\<rparr>"
  let ?ts = "sort_key due (filter (\<lambda>tm. due tm \<le> T) (timers s))"
  have "channelRef ?s = Some r" "published ?s = published s"
    using assms by simp_all
  with fires_published [of ?s r ?ts]
  have "published (advance T s) = published s @ concat (map (stopSignal r) ?ts)"
    by (simp add: advance_def)
  also have "concat (map (stopSignal r) ?ts) = concat (map (stopSignal r) (filter isStopTimer ?ts))"
    by (rule concat_stopSignal)
  finally show ?thesis
    by (simp only: due_stop_timers)
qed

lemma fire_ref:
  "typingTimeoutRef (fire tm s) = (if isStopTimer tm then None else typingTimeoutRef s)"
  by (simp add: fire_def isStopTimer_def split: timer_action.splits)

lemma fires_ref:
  "typingTimeoutRef (foldl (\<lambda>st tm. fire tm st) s ts)
     = (if filter isStopTimer ts = [] then typingTimeoutRef s else None)"
proof (induction ts arbitrary: s)
  case Nil
  show ?case by simp
next
  case (Cons tm ts)
  have always: "typingTimeoutRef (foldl (\<lambda>st tm. fire tm st) st ts) = None"
    if "typingTimeoutRef st = None" for st
    using Cons.IH [of st] that by simp
  show ?case
    by (simp add: Cons.IH fire_ref always)
qed

lemma sort_key_Nil_iff: "sort_key f xs = [] \<longleftrightarrow> xs = []"
  using length_sort [of f xs] by (metis length_0_conv)

lemma advance_ref:
  "typingTimeoutRef (advance T s)
     = (if filter (\<lambda>tm. due tm \<le> T) (filter isStopTimer (timers s)) = []
        then typingTimeoutRef s else None)"
proof -
  have "filter isStopTimer (sort_key due (filter (\<lambda>tm. due tm \<le> T) (timers s))) = []
          \<longleftrightarrow> filter (\<lambda>tm. due tm \<le> T) (filter isStopTimer (timers s)) = []"
    by (simp only: due_stop_timers sort_key_Nil_iff)
  then show ?thesis
    by (simp add: advance_def fires_ref del: filter_filter)
qed

lemma stopArmed_early:
  assumes arm: "stopArmed r u t s" and early: "T < t + 1000"
  shows "stopArmed r u t (advance T s)" and "published (advance T s) = published s"
proof -
  from arm obtain h where ref: "typingTimeoutRef s = Some h"
    and one: "filter isStopTimer (timers s) = [\<lparr>handle = h, due = t + 1000, action = StopTyping (Some u)\<rparr>]"
    and env: "channelRef s = Some r" "user s = Some u" "user_id u \<noteq> []"
    by (auto simp add: stopArmed_def split: option.splits)
  have none_due: "filter (\<lambda>tm. due tm \<le> T) (filter isStopTimer (timers s)) = []"
    using early by (simp only: one) simp
  show "published (advance T s) = published s"
    by (simp only: advance_published [OF env(1)] none_due) simp
  have ref': "typingTimeoutRef (advance T s) = Some h"
    by (simp only: advance_ref none_due) (simp add: ref)
  have "filter isStopTimer (timers (advance T s))
          = filter (\<lambda>tm. T < due tm) (filter isStopTimer (timers s))"
    by (simp add: advance_timers conj_commute)
  also have "\<dots> = [\<lparr>handle = h, due = t + 1000, action = StopTyping (Some u)\<rparr>]"
    using early by (simp only: one) simp
  finally show "stopArmed r u t (advance T s)"
    using env by (simp add: stopArmed_def ref' advance_frame)
qed

lemma stopArmed_late:
  assumes arm: "stopArmed r u t s" and late: "t + 1000 \<le> T"
  shows "published (advance T s) =
           published s @ [PublishTyping r False (t + 1000) (user_id u) (metadataOf u)]"
    and "typingTimeoutRef (advance T s) = None"
proof -
  from arm obtain h where ref: "typingTimeoutRef s = Some h"
    and one: "filter isStopTimer (timers s) = [\<lparr>handle = h, due = t + 1000, action = StopTyping (Some u)\<rparr>]"
    and env: "channelRef s = Some r" "user s = Some u" "user_id u \<noteq> []"
    by (auto simp add: stopArmed_def split: option.splits)
  have is_due: "filter (\<lambda>tm. due tm \<le> T) (filter isStopTimer (timers s))
                 = [\<lparr>handle = h, due = t + 1000, action = StopTyping (Some u)\<rparr>]"
    using late by (simp only: one) simp
  show "published (advance T s) =
           published s @ [PublishTyping r False (t + 1000) (user_id u) (metadataOf u)]"
    using env(3) by (simp only: advance_published [OF env(1)] is_due) (simp add: stopSignal_def)
  show "typingTimeoutRef (advance T s) = None"
    by (simp only: advance_ref is_due) simp
qed


lemma handleMessageChange_armed:
  assumes arm: "stopArmed r u t s"
  shows "stopArmed r u t' (handleMessageChange v t' s)"
    and "published (handleMessageChange v t' s) = published s"
proof -
  from arm obtain h where ref: "typingTimeoutRef s = Some h"
    and one: "filter isStopTimer (timers s) = [\<lparr>handle = h, due = t + 1000, action = StopTyping (Some u)\<rparr>]"
    and env: "channelRef s = Some r" "user s = Some u" "user_id u \<noteq> []"
    by (auto simp add: stopArmed_def split: option.splits)
  have step: "handleMessageChange v t' s =
      s\<lparr>message := v,
        timers := filter (\<lambda>tm. handle tm \<noteq> h) (timers s) @
                    [\<lparr>handle = nextHandle s, due = t' + 1000, action = StopTyping (Some u)\<rparr>],
        nextHandle := Suc (nextHandle s),
        typingTimeoutRef := Some (nextHandle s)\<rparr>"
    by (simp add: handleMessageChange_def ref env clearTimeout_def setTimeout_def)
  show "published (handleMessageChange v t' s) = published s"
    by (simp add: step)
  have "filter isStopTimer (filter (\<lambda>tm. handle tm \<noteq> h) (timers s))
          = filter (\<lambda>tm. handle tm \<noteq> h) (filter isStopTimer (timers s))"
    by (simp add: conj_commute)
  also have "\<dots> = []"
    by (simp only: one) simp
  finally have cleared: "filter isStopTimer (filter (\<lambda>tm. handle tm \<noteq> h) (timers s)) = []" .
  show "stopArmed r u t' (handleMessageChange v t' s)"
    using env cleared by (simp add: step stopArmed_def isStopTimer_def del: filter_filter)
qed

lemma handleMessageChange_idle:
  assumes idle: "typingTimeoutRef s = None" "filter isStopTimer (timers s) = []"
    and env: "channelRef s = Some r" "user s = Some u" "user_id u \<noteq> []"
  shows "stopArmed r u t (handleMessageChange v t s)"
    and "published (handleMessageChange v t s) =
           published s @ (if trim v \<noteq> [] then [PublishTyping r True t (user_id u) (metadataOf u)] else [])"
proof -
  have step: "handleMessageChange v t s =
      s\<lparr>message := v,
        published := published s @
           (if trim v \<noteq> [] then [PublishTyping r True t (user_id u) (metadataOf u)] else []),
        pending := pending s @ (if trim v \<noteq> [] then [PublishingTyping] else []),
        timers := timers s @
                    [\<lparr>handle = nextHandle s, due = t + 1000, action = StopTyping (Some u)\<rparr>],
        nextHandle := Suc (nextHandle s),
        typingTimeoutRef := Some (nextHandle s)\<rparr>"
    by (simp add: handleMessageChange_def idle env sendTypingIndicator_def setTimeout_def)
  show "published (handleMessageChange v t s) =
           published s @ (if trim v \<noteq> [] then [PublishTyping r True t (user_id u) (metadataOf u)] else [])"
    by (simp add: step)
  show "stopArmed r u t (handleMessageChange v t s)"
    using env idle(2) by (simp add: step stopArmed_def isStopTimer_def)
qed

lemma idle_advance:
  assumes idle: "typingTimeoutRef s = None" "filter isStopTimer (timers s) = []"
    and chan: "channelRef s = Some r"
  shows "typingTimeoutRef (advance T s) = None"
    and "filter isStopTimer (timers (advance T s)) = []"
    and "published (advance T s) = published s"
proof -
  show "typingTimeoutRef (advance T s) = None"
    by (simp only: advance_ref idle) simp
  have "filter isStopTimer (timers (advance T s))
          = filter (\<lambda>tm. T < due tm) (filter isStopTimer (timers s))"
    by (simp add: advance_timers conj_commute)
  then show "filter isStopTimer (timers (advance T s)) = []"
    by (simp only: idle) simp
  show "published (advance T s) = published s"
    by (simp only: advance_published [OF chan] idle) simp
qed

lemma burst_run:
  "stopArmed r u t s \<Longrightarrow> burst t ks \<Longrightarrow>
     stopArmed r u (lastInstant t ks) (run s (keystrokes ks))
     \<and> published (run s (keystrokes ks)) = published s"
proof (induction ks arbitrary: t s)
  case Nil
  then show ?case by (simp add: run_def keystrokes_def)
next
  case (Cons k ks)
  obtain t' v where k: "k = (t', v)" by (cases k)
  from Cons.prems(2) have gap: "t' < t + 1000" and rest: "burst t' ks"
    by (simp_all add: k)
  let ?s1 = "step s (t', InputChanged v)"
  have unfold: "?s1 = handleMessageChange v t' (advance t' s)"
    by (simp add: step_def)
  note early = stopArmed_early [OF Cons.prems(1) gap]
  have arm1: "stopArmed r u t' ?s1"
    by (simp only: unfold) (rule handleMessageChange_armed(1) [OF early(1)])
  have pub1: "published ?s1 = published s"
    by (simp only: unfold handleMessageChange_armed(2) [OF early(1)] early(2))
  have run1: "run s (keystrokes ((t', v) # ks)) = run ?s1 (keystrokes ks)"
    by (simp add: run_def keystrokes_def)
  from Cons.IH [OF arm1 rest] show ?case
    unfolding k by (simp only: run1 pub1 lastInstant.simps)
qed

text \<open>
  The ref and the stop timers agree in every state that the component reaches from its
  initial state, so there an empty ref means that no stop timer is pending.
\<close>

lemma match_same:
  "filter isStopTimer (timers s') = filter isStopTimer (timers s) \<Longrightarrow>
   typingTimeoutRef s' = typingTimeoutRef s \<Longrightarrow> stopTimersMatchRef s \<Longrightarrow> stopTimersMatchRef s'"
  by (simp add: stopTimersMatchRef_def split: option.splits)

lemma advance_match: "stopTimersMatchRef s \<Longrightarrow> stopTimersMatchRef (advance T s)"
proof (cases "typingTimeoutRef s")
  case None
  assume "stopTimersMatchRef s"
  with None have none: "filter isStopTimer (timers s) = []"
    by (simp add: stopTimersMatchRef_def)
  have "filter isStopTimer (timers (advance T s)) = filter (\<lambda>tm. T < due tm) (filter isStopTimer (timers s))"
    by (simp add: advance_timers conj_commute)
  moreover have "typingTimeoutRef (advance T s) = None"
    by (simp only: advance_ref none) (simp add: None)
  ultimately show ?thesis
    by (simp add: stopTimersMatchRef_def none)
next
  case (Some h)
  assume "stopTimersMatchRef s"
  with Some have one: "map handle (filter isStopTimer (timers s)) = [h]"
    by (simp add: stopTimersMatchRef_def)
  then obtain tm where tm: "filter isStopTimer (timers s) = [tm]" "handle tm = h"
    by (cases "filter isStopTimer (timers s)") auto
  have stops: "filter isStopTimer (timers (advance T s)) = filter (\<lambda>tm. T < due tm) (filter isStopTimer (timers s))"
    by (simp add: advance_timers conj_commute)
  show ?thesis
  proof (cases "due tm \<le> T")
    case True
    then have "filter (\<lambda>tm. due tm \<le> T) (filter isStopTimer (timers s)) = [tm]"
      by (simp only: tm) simp
    then have "typingTimeoutRef (advance T s) = None"
      by (simp only: advance_ref) simp
    moreover from True have "filter isStopTimer (timers (advance T s)) = []"
      by (simp only: stops tm) simp
    ultimately show ?thesis
      by (simp add: stopTimersMatchRef_def)
  next
    case False
    then have "filter (\<lambda>tm. due tm \<le> T) (filter isStopTimer (timers s)) = []"
      by (simp only: tm) simp
    then have "typingTimeoutRef (advance T s) = Some h"
      by (simp only: advance_ref) (simp add: Some)
    moreover from False have "filter isStopTimer (timers (advance T s)) = [tm]"
      by (simp only: stops tm) simp
    ultimately show ?thesis
      by (simp add: stopTimersMatchRef_def tm)
  qed
qed

lemma handleMessageChange_match:
  assumes "stopTimersMatchRef s"
  shows "stopTimersMatchRef (handleMessageChange v t s)"
proof (cases "typingTimeoutRef s")
  case None
  with assms have none: "filter isStopTimer (timers s) = []"
    by (simp add: stopTimersMatchRef_def)
  show ?thesis
    by (simp add: handleMessageChange_def None none Let_def setTimeout_def
        sendTypingIndicator_frame stopTimersMatchRef_def isStopTimer_def)
next
  case (Some h)
  with assms have one: "map handle (filter isStopTimer (timers s)) = [h]"
    by (simp add: stopTimersMatchRef_def)
  then obtain tm where tm: "filter isStopTimer (timers s) = [tm]" "handle tm = h"
    by (cases "filter isStopTimer (timers s)") auto
  have "filter isStopTimer (filter (\<lambda>tm. handle tm \<noteq> h) (timers s))
          = filter (\<lambda>tm. handle tm \<noteq> h) (filter isStopTimer (timers s))"
    by (simp add: conj_commute)
  also have "\<dots> = []"
    by (simp only: tm(1)) (simp add: tm(2))
  finally have cleared: "filter isStopTimer (filter (\<lambda>tm. handle tm \<noteq> h) (timers s)) = []" .
  show ?thesis
    using cleared
    by (simp add: handleMessageChange_def Some Let_def setTimeout_def clearTimeout_def
        stopTimersMatchRef_def isStopTimer_def del: filter_filter)
qed

lemma sendTypingIndicator_match:
  "stopTimersMatchRef s \<Longrightarrow> stopTimersMatchRef (sendTypingIndicator u b t s)"
  by (rule match_same) (simp_all add: sendTypingIndicator_frame)

lemma onMessage_match: "stopTimersMatchRef s \<Longrightarrow> stopTimersMatchRef (onMessage uid now rm s)"
  by (rule match_same)
     (simp_all add: onMessage_def Let_def setTimeout_def isStopTimer_def)

lemma setupEffect_match: "stopTimersMatchRef s \<Longrightarrow> stopTimersMatchRef (setupEffect s)"
  by (rule match_same)
     (simp_all add: setupEffect_def cleanup_def Let_def split: option.splits)

lemma dispatch_match: "stopTimersMatchRef s \<Longrightarrow> stopTimersMatchRef (dispatch e now s)"
proof (cases e)
  case (InputChanged v)
  assume "stopTimersMatchRef s"
  then show ?thesis by (simp add: InputChanged handleMessageChange_match)
next
  case (Received r uid rm)
  assume "stopTimersMatchRef s"
  then show ?thesis by (simp add: Received onMessage_match)
next
  case (AuthStateChanged u l)
  assume inv: "stopTimersMatchRef s"
  have "stopTimersMatchRef (s\<lparr>user := u, loading := l\<rparr>)"
    using inv by (rule match_same [rotated 2]) simp_all
  then show ?thesis
    by (simp add: AuthStateChanged authStateChanged_def Let_def setupEffect_match)
next
  case (PropsChanged c d)
  assume inv: "stopTimersMatchRef s"
  have "stopTimersMatchRef (s\<lparr>channelId := c, dmId := d\<rparr>)"
    using inv by (rule match_same [rotated 2]) simp_all
  then have "stopTimersMatchRef (setupEffect (s\<lparr>channelId := c, dmId := d\<rparr>))"
    by (rule setupEffect_match)
  then have "stopTimersMatchRef (clearEffect (setupEffect (s\<lparr>channelId := c, dmId := d\<rparr>)))"
    by (rule match_same [rotated 2]) (simp_all add: clearEffect_def)
  with inv show ?thesis
    by (simp add: PropsChanged propsChanged_def)
next
  case (PublishSettled msg atts u ok)
  assume inv: "stopTimersMatchRef s"
  let ?s = "settle (Publishing msg atts u) s"
  have base: "stopTimersMatchRef ?s"
    using inv by (rule match_same [rotated 2]) (simp_all add: settle_def)
  have "stopTimersMatchRef (?s\<lparr>message := [], attachments := []\<rparr>)"
    using base by (rule match_same [rotated 2]) simp_all
  then have ok: "stopTimersMatchRef (publishResolved u now ?s)"
    unfolding publishResolved_def by (rule sendTypingIndicator_match)
  have bad: "stopTimersMatchRef (publishRejected msg atts u now ?s)"
    using base by (rule match_same [rotated 2]) (simp_all add: publishRejected_def)
  from inv ok bad show ?thesis
    by (simp add: PublishSettled)
qed (erule match_same [rotated 2];
     simp add: subscribeSettled_def backlogSettled_def settle_def handleSendMessage_def
       handleFileUpload_def uploadsSettled_def removeAttachment_def Let_def
       split: option.splits)+

lemma reachable_match: "stopTimersMatchRef (run (init c d) tes)"
proof (induction tes rule: rev_induct)
  case Nil
  show ?case by (simp add: run_def init_def stopTimersMatchRef_def)
next
  case (snoc te tes)
  have "run (init c d) (tes @ [te]) = dispatch (snd te) (fst te) (advance (fst te) (run (init c d) tes))"
    by (simp add: run_def step_def)
  with snoc show ?case
    by (simp add: dispatch_match advance_match)
qed

lemma reachable_idle:
  "typingTimeoutRef (run (init c d) tes) = None \<Longrightarrow>
     filter isStopTimer (timers (run (init c d) tes)) = []"
  using reachable_match [of c d tes] by (simp add: stopTimersMatchRef_def)

text \<open>
  C7, as the code has it.  Take a state with a channel handle and a signed-in user, no
  stop timer pending and the ref empty, and a burst of input events, each less than
  1000 ms after the one before.  A \<open>typing\<close> signal with flag true is published once, at
  the first event, when the value of that event is not blank after trimming, and not at
  all when it is blank; nothing else is published until 1000 ms after the last event, and
  from then on one signal with flag false, stamped with that instant, has been added.
\<close>

theorem typing_debounce:
  assumes idle: "typingTimeoutRef s = None" "filter isStopTimer (timers s) = []"
    and env: "channelRef s = Some r" "user s = Some u" "user_id u \<noteq> []"
    and gaps: "burst t1 ks"
  shows "published (run s ((t1, InputChanged v1) # keystrokes ks)) =
           published s @
             (if trim v1 \<noteq> [] then [PublishTyping r True t1 (user_id u) (metadataOf u)] else [])
       \<and> (\<forall>T. T < lastInstant t1 ks + 1000 \<longrightarrow>
            published (advance T (run s ((t1, InputChanged v1) # keystrokes ks))) =
              published s @
                (if trim v1 \<noteq> [] then [PublishTyping r True t1 (user_id u) (metadataOf u)] else []))
       \<and> (\<forall>T. lastInstant t1 ks + 1000 \<le> T \<longrightarrow>
            published (advance T (run s ((t1, InputChanged v1) # keystrokes ks))) =
              published s @
                (if trim v1 \<noteq> [] then [PublishTyping r True t1 (user_id u) (metadataOf u)] else []) @
                [PublishTyping r False (lastInstant t1 ks + 1000) (user_id u) (metadataOf u)])"
proof -
  let ?s0 = "advance t1 s"
  let ?s1 = "step s (t1, InputChanged v1)"
  let ?end = "run s ((t1, InputChanged v1) # keystrokes ks)"
  let ?start = "if trim v1 \<noteq> [] then [PublishTyping r True t1 (user_id u) (metadataOf u)] else []"
  note idle0 = idle_advance [OF idle env(1), of t1]
  have env0: "channelRef ?s0 = Some r" "user ?s0 = Some u"
    using env by (simp_all add: advance_frame)
  have unfold: "?s1 = handleMessageChange v1 t1 ?s0"
    by (simp add: step_def)
  have arm1: "stopArmed r u t1 ?s1"
    by (simp only: unfold) (rule handleMessageChange_idle(1) [OF idle0(1,2) env0 env(3)])
  have pub1: "published ?s1 = published s @ ?start"
    by (simp only: unfold handleMessageChange_idle(2) [OF idle0(1,2) env0 env(3)] idle0(3))
  have run1: "?end = run ?s1 (keystrokes ks)"
    by (simp add: run_def)
  from burst_run [OF arm1 gaps]
  have armN: "stopArmed r u (lastInstant t1 ks) ?end" and pubN: "published ?end = published s @ ?start"
    by (simp_all only: run1 pub1)
  have before: "published (advance T ?end) = published s @ ?start"
    if "T < lastInstant t1 ks + 1000" for T
    by (simp only: stopArmed_early(2) [OF armN that] pubN)
  have after: "published (advance T ?end) =
      published s @ ?start @ [PublishTyping r False (lastInstant t1 ks + 1000) (user_id u) (metadataOf u)]"
    if "lastInstant t1 ks + 1000 \<le> T" for T
    by (simp only: stopArmed_late(1) [OF armN that] pubN append_assoc)
  from pubN before after show ?thesis by blast
qed


theorem typing_debounce_witness:
  "published (advance 2200 (run (composing [])
      ((100, InputChanged (lit ''h'')) #
       keystrokes [(300, lit ''hi''), (1200, lit ''hi!'')])))
   = [PublishTyping (lit ''channel-general'') True 100 (user_id alice) (metadataOf alice),
      PublishTyping (lit ''channel-general'') False 2200 (user_id alice) (metadataOf alice)]
   \<and> typingSignals True (published (advance 2200 (run (composing [])
      ((100, InputChanged (lit ''h'')) #
       keystrokes [(300, lit ''hi''), (1200, lit ''hi!'')])))) = 1
   \<and> typingSignals False (published (advance 2200 (run (composing [])
      ((100, InputChanged (lit ''h'')) #
       keystrokes [(300, lit ''hi''), (1200, lit ''hi!'')])))) = 1"
proof -
  let ?s = "composing []"
  let ?ks = "[(300, lit ''hi''), (1200, lit ''hi!'')]"
  have idle: "typingTimeoutRef ?s = None" "filter isStopTimer (timers ?s) = []"
    by (simp_all add: composing_def init_def)
  have env: "channelRef ?s = Some (lit ''channel-general'')" "user ?s = Some alice"
      "user_id alice \<noteq> []"
    by (simp_all add: composing_def alice_def lit_def)
  have gaps: "burst 100 ?ks" by simp
  have nonblank: "trim (lit ''h'') \<noteq> []"
    by (simp add: trim_def is_ws_def lit_def)
  have last: "lastInstant 100 ?ks + 1000 \<le> 2200" "lastInstant 100 ?ks + 1000 = 2200"
    by simp_all
  have none: "published ?s = []"
    by (simp add: composing_def init_def)
  from typing_debounce [OF idle env gaps, of "lit ''h''"] last(1)
  have "published (advance 2200 (run ?s ((100, InputChanged (lit ''h'')) # keystrokes ?ks))) =
      published ?s @
        (if trim (lit ''h'') \<noteq> []
         then [PublishTyping (lit ''channel-general'') True 100 (user_id alice) (metadataOf alice)]
         else []) @
        [PublishTyping (lit ''channel-general'') False (lastInstant 100 ?ks + 1000)
           (user_id alice) (metadataOf alice)]"
    by blast
  then have calls: "published (advance 2200 (run ?s ((100, InputChanged (lit ''h'')) # keystrokes ?ks)))
    = [PublishTyping (lit ''channel-general'') True 100 (user_id alice) (metadataOf alice),
       PublishTyping (lit ''channel-general'') False 2200 (user_id alice) (metadataOf alice)]"
    by (simp add: none nonblank)
  show ?thesis
    by (simp only: calls) (simp add: typingSignals_def)
qed

text \<open>
  C7 as stated fails when the first value of the burst is blank: one input event that
  leaves a single space in the input publishes no start signal, and one stop signal.
\<close>

theorem typing_debounce_counterexample:
  "typingSignals True
     (published (advance 1100 (run (composing []) [(100, InputChanged (lit '' ''))]))) = 0
   \<and> typingSignals False
     (published (advance 1100 (run (composing []) [(100, InputChanged (lit '' ''))]))) = 1"
proof -
  have blank: "trim (lit '' '') = []"
    by (simp add: trim_def is_ws_def lit_def)
  let ?s = "composing []"
  let ?s1 = "step ?s (100, InputChanged (lit '' ''))"
  have idle: "typingTimeoutRef ?s = None" "filter isStopTimer (timers ?s) = []"
    by (simp_all add: composing_def init_def)
  have env: "channelRef ?s = Some (lit ''channel-general'')" "user ?s = Some alice"
      "user_id alice \<noteq> []"
    by (simp_all add: composing_def alice_def lit_def)
  have none: "published ?s = []"
    by (simp add: composing_def init_def)
  note idle0 = idle_advance [OF idle env(1), of 100]
  have env0: "channelRef (advance 100 ?s) = Some (lit ''channel-general'')"
      "user (advance 100 ?s) = Some alice"
    using env by (simp_all add: advance_frame)
  have unfold: "?s1 = handleMessageChange (lit '' '') 100 (advance 100 ?s)"
    by (simp add: step_def)
  have arm1: "stopArmed (lit ''channel-general'') alice 100 ?s1"
    by (simp only: unfold) (rule handleMessageChange_idle(1) [OF idle0(1,2) env0 env(3)])
  have pub1: "published ?s1 = []"
    by (simp only: unfold handleMessageChange_idle(2) [OF idle0(1,2) env0 env(3)] idle0(3))
      (simp add: none blank)
  have "published (advance 1100 ?s1)
      = [PublishTyping (lit ''channel-general'') False 1100 (user_id alice) (metadataOf alice)]"
    using stopArmed_late(1) [OF arm1, of 1100] by (simp add: pub1)
  then have "published (advance 1100 (run (composing []) [(100, InputChanged (lit '' ''))]))
      = [PublishTyping (lit ''channel-general'') False 1100 (user_id alice) (metadataOf alice)]"
    by (simp add: run_def)
  then show ?thesis
    by (simp add: typingSignals_def)
qed



section \<open>Room switches\<close>


lemma setupEffect_channelRef:
  "channelRef (setupEffect s) = resolveRoom (userId (user s)) (channelId s) (dmId s)"
  by (simp add: setupEffect_def cleanup_def Let_def split: option.splits)

text \<open>
  C3, as the code has it.  New props that select another room empty the transcript, the
  stage and the typing list and put the handle of the newly resolved room in the ref, so
  nothing held for the room before is kept.  A backlog result is applied when it arrives,
  for whatever room its fetch was issued: it replaces the whole transcript, and neither
  the selected room nor the handle held is consulted.
\<close>

theorem room_switch_clears:
  assumes changed: "c \<noteq> channelId s \<or> d \<noteq> dmId s"
  shows "messages (step s (t, PropsChanged c d)) = []
       \<and> attachments (step s (t, PropsChanged c d)) = []
       \<and> typingUsers (step s (t, PropsChanged c d)) = []
       \<and> channelRef (step s (t, PropsChanged c d)) = resolveRoom (userId (user s)) c d
       \<and> (\<forall>s' r uid recent t'. Fetching r uid \<in> set (pending s') \<longrightarrow>
            messages (dispatch (BacklogSettled r uid (Some recent)) t' s')
              = map (toMessage uid) recent)"
proof -
  let ?a = "advance t s"
  have props: "channelId ?a = channelId s" "dmId ?a = dmId s" "user ?a = user s"
    by (simp_all add: advance_frame)
  have unfold: "step s (t, PropsChanged c d) = clearEffect (setupEffect (?a\<lparr>channelId := c, dmId := d\<rparr>))"
    using changed by (auto simp add: step_def propsChanged_def props)
  have cleared: "messages (step s (t, PropsChanged c d)) = []"
    "attachments (step s (t, PropsChanged c d)) = []"
    "typingUsers (step s (t, PropsChanged c d)) = []"
    by (simp_all only: unfold) (simp_all add: clearEffect_def)
  have "channelRef (step s (t, PropsChanged c d)) = channelRef (setupEffect (?a\<lparr>channelId := c, dmId := d\<rparr>))"
    by (simp only: unfold) (simp add: clearEffect_def)
  then have handle: "channelRef (step s (t, PropsChanged c d)) = resolveRoom (userId (user s)) c d"
    by (simp add: setupEffect_channelRef props)
  have applied: "messages (dispatch (BacklogSettled r uid (Some recent)) t' s') = map (toMessage uid) recent"
    if "Fetching r uid \<in> set (pending s')" for s' :: chat_state and r uid recent t'
    using that by (simp add: backlogSettled_def)
  from cleared handle applied show ?thesis by blast
qed

text \<open>
  C3 as stated fails: the fetch for \<open>channel-general\<close> is in flight when \<open>random\<close> is
  selected, and its result, arriving afterwards, becomes the transcript shown for
  \<open>random\<close>.
\<close>

theorem room_switch_counterexample:
  "channelId (run (init (Some (lit ''general'')) (Some []))
      [(0, AuthStateChanged (Some alice) False),
       (40, SubscribeSettled (lit ''channel-general'') (lit ''usr_1'') True),
       (60, PropsChanged (Some (lit ''random'')) (Some [])),
       (90, BacklogSettled (lit ''channel-general'') (lit ''usr_1'')
              (Some [chatFrom (lit ''m1'') (lit ''usr_2'') (lit ''Bob'') (lit ''only for general'') 5]))])
     = Some (lit ''random'')
   \<and> channelRef (run (init (Some (lit ''general'')) (Some []))
      [(0, AuthStateChanged (Some alice) False),
       (40, SubscribeSettled (lit ''channel-general'') (lit ''usr_1'') True),
       (60, PropsChanged (Some (lit ''random'')) (Some [])),
       (90, BacklogSettled (lit ''channel-general'') (lit ''usr_1'')
              (Some [chatFrom (lit ''m1'') (lit ''usr_2'') (lit ''Bob'') (lit ''only for general'') 5]))])
     = Some (lit ''channel-random'')
   \<and> messages (run (init (Some (lit ''general'')) (Some []))
      [(0, AuthStateChanged (Some alice) False),
       (40, SubscribeSettled (lit ''channel-general'') (lit ''usr_1'') True),
       (60, PropsChanged (Some (lit ''random'')) (Some [])),
       (90, BacklogSettled (lit ''channel-general'') (lit ''usr_1'')
              (Some [chatFrom (lit ''m1'') (lit ''usr_2'') (lit ''Bob'') (lit ''only for general'') 5]))])
     = [toMessage (lit ''usr_1'')
          (chatFrom (lit ''m1'') (lit ''usr_2'') (lit ''Bob'') (lit ''only for general'') 5)]"
proof -
  let ?s3 = "run (init (Some (lit ''general'')) (Some []))
      [(0, AuthStateChanged (Some alice) False),
       (40, SubscribeSettled (lit ''channel-general'') (lit ''usr_1'') True),
       (60, PropsChanged (Some (lit ''random'')) (Some []))]"
  let ?e = "(90::nat, BacklogSettled (lit ''channel-general'') (lit ''usr_1'')
              (Some [chatFrom (lit ''m1'') (lit ''usr_2'') (lit ''Bob'') (lit ''only for general'') 5]))"
  have s3: "pending ?s3 = [Fetching (lit ''channel-general'') (lit ''usr_1''),
                           Subscribing (lit ''channel-random'') (lit ''usr_1'')]"
    "timers ?s3 = []" "channelId ?s3 = Some (lit ''random'')"
    "channelRef ?s3 = Some (lit ''channel-random'')" "messages ?s3 = []"
    by (simp_all add: run_def step_def advance_def init_def authStateChanged_def userDeps_def
        alice_def setupEffect_def cleanup_def resolveRoom_def roomId_def userId_def
        subscribeSettled_def settle_def propsChanged_def clearEffect_def lit_def)
  have idle: "advance 90 ?s3 = ?s3"
    by (simp add: advance_def s3(2))
  have last: "run (init (Some (lit ''general'')) (Some []))
      [(0, AuthStateChanged (Some alice) False),
       (40, SubscribeSettled (lit ''channel-general'') (lit ''usr_1'') True),
       (60, PropsChanged (Some (lit ''random'')) (Some [])), ?e] = step ?s3 ?e"
    by (simp add: run_def)
  have "channelId (step ?s3 ?e) = Some (lit ''random'')"
    "channelRef (step ?s3 ?e) = Some (lit ''channel-random'')"
    "messages (step ?s3 ?e) = [toMessage (lit ''usr_1'')
          (chatFrom (lit ''m1'') (lit ''usr_2'') (lit ''Bob'') (lit ''only for general'') 5)]"
    by (simp_all only: step_def fst_conv snd_conv idle)
       (simp_all add: s3 backlogSettled_def settle_def)
  then show ?thesis
    by (simp only: last simp_thms)
qed


theorem room_switch_clears_witness:
  "messages (step ((composing [])\<lparr>messages :=
        [toMessage (lit ''usr_1'') (chatFrom (lit ''m1'') (lit ''usr_2'') (lit ''Bob'') (lit ''hi'') 5)]\<rparr>)
      (60, PropsChanged (Some (lit ''random'')) (Some []))) = []
   \<and> channelRef (step ((composing [])\<lparr>messages :=
        [toMessage (lit ''usr_1'') (chatFrom (lit ''m1'') (lit ''usr_2'') (lit ''Bob'') (lit ''hi'') 5)]\<rparr>)
      (60, PropsChanged (Some (lit ''random'')) (Some []))) = Some (lit ''channel-random'')
   \<and> messages (dispatch (BacklogSettled (lit ''channel-random'') (lit ''usr_1'')
        (Some [chatFrom (lit ''m2'') (lit ''usr_2'') (lit ''Bob'') (lit ''hello'') 7])) 90
        ((composing [])\<lparr>pending := [Fetching (lit ''channel-random'') (lit ''usr_1'')]\<rparr>))
     = [toMessage (lit ''usr_1'') (chatFrom (lit ''m2'') (lit ''usr_2'') (lit ''Bob'') (lit ''hello'') 7)]"
proof -
  let ?s = "(composing [])\<lparr>messages :=
        [toMessage (lit ''usr_1'') (chatFrom (lit ''m1'') (lit ''usr_2'') (lit ''Bob'') (lit ''hi'') 5)]\<rparr>"
  let ?s' = "(composing [])\<lparr>pending := [Fetching (lit ''channel-random'') (lit ''usr_1'')]\<rparr>"
  have changed: "Some (lit ''random'') \<noteq> channelId ?s \<or> Some [] \<noteq> dmId ?s"
    by (simp add: composing_def init_def lit_def)
  have room: "resolveRoom (userId (user ?s)) (Some (lit ''random'')) (Some []) = Some (lit ''channel-random'')"
    by (simp add: composing_def init_def resolveRoom_def roomId_def userId_def alice_def lit_def)
  have inflight: "Fetching (lit ''channel-random'') (lit ''usr_1'') \<in> set (pending ?s')"
    by simp
  note sw = room_switch_clears [OF changed, of 60]
  from sw have a: "messages (step ?s (60, PropsChanged (Some (lit ''random'')) (Some []))) = []"
    by (rule conjunct1)
  from sw have b: "channelRef (step ?s (60, PropsChanged (Some (lit ''random'')) (Some [])))
      = Some (lit ''channel-random'')"
    by (simp only: room)
  from sw inflight have c: "messages (dispatch (BacklogSettled (lit ''channel-random'') (lit ''usr_1'')
        (Some [chatFrom (lit ''m2'') (lit ''usr_2'') (lit ''Bob'') (lit ''hello'') 7])) 90 ?s')
     = map (toMessage (lit ''usr_1'')) [chatFrom (lit ''m2'') (lit ''usr_2'') (lit ''Bob'') (lit ''hello'') 7]"
    by blast
  from a b c show ?thesis by simp
qed



section \<open>Date separators\<close>


lemma digits_nonempty: "digits n \<noteq> []"
  by (subst digits.simps) simp

lemma digits_small: "n < 10 \<Longrightarrow> digits n = [48 + n]"
  by (subst digits.simps) simp

lemma digits_large: "\<not> n < 10 \<Longrightarrow> digits n = digits (n div 10) @ [48 + n mod 10]"
  by (subst digits.simps) simp

lemma digits_inj: "digits n = digits m \<Longrightarrow> n = m"
proof (induction n arbitrary: m rule: digits.induct)
  case (1 n)
  show ?case
  proof (cases "n < 10")
    case True
    show ?thesis
    proof (cases "m < 10")
      case True
      with \<open>n < 10\<close> "1.prems" show ?thesis
        by (simp add: digits_small)
    next
      case False
      with \<open>n < 10\<close> "1.prems" digits_nonempty [of "m div 10"] show ?thesis
        by (simp add: digits_small digits_large)
    qed
  next
    case False
    show ?thesis
    proof (cases "m < 10")
      case True
      with \<open>\<not> n < 10\<close> "1.prems" digits_nonempty [of "n div 10"] show ?thesis
        by (simp add: digits_small digits_large)
    next
      case large: False
      from False large "1.prems"
      have eq: "digits (n div 10) = digits (m div 10)" "n mod 10 = m mod 10"
        by (simp_all add: digits_large)
      from "1.IH" [OF False eq(1)] have "n div 10 = m div 10" .
      with eq(2) show ?thesis
        by (metis div_mult_mod_eq)
    qed
  qed
qed

lemma monthName_no_space: "32 \<notin> set (monthName m)"
  by (cases m) (simp_all add: lit_def)

lemma monthName_inj: "monthName m = monthName m' \<Longrightarrow> m = m'"
  by (cases m; cases m'; simp add: lit_def)

lemma split_at_separator:
  "c \<notin> set xs \<Longrightarrow> c \<notin> set ys \<Longrightarrow> xs @ c # us = ys @ c # vs \<Longrightarrow> xs = ys \<and> us = vs"
proof (induction xs arbitrary: ys)
  case Nil
  then show ?case by (cases ys) auto
next
  case (Cons x xs)
  then show ?case by (cases ys) auto
qed

lemma monthDay_eq_iff:
  "monthDay a = monthDay b \<longleftrightarrow> c_month a = c_month b \<and> c_day a = c_day b"
proof
  assume "monthDay a = monthDay b"
  then have "monthName (c_month a) @ 32 # digits (c_day a)
           = monthName (c_month b) @ 32 # digits (c_day b)"
    by (simp add: monthDay_def lit_def)
  from split_at_separator [OF monthName_no_space monthName_no_space this]
  show "c_month a = c_month b \<and> c_day a = c_day b"
    by (auto dest: monthName_inj digits_inj)
next
  assume "c_month a = c_month b \<and> c_day a = c_day b"
  then show "monthDay a = monthDay b"
    by (simp add: monthDay_def)
qed

lemma monthDay_not_word: "monthDay a \<noteq> lit ''Today''" "monthDay a \<noteq> lit ''Yesterday''"
proof -
  have "32 \<in> set (monthDay a)" by (simp add: monthDay_def lit_def)
  moreover have "32 \<notin> set (lit ''Today'')" "32 \<notin> set (lit ''Yesterday'')"
    by (simp_all add: lit_def)
  ultimately show "monthDay a \<noteq> lit ''Today''" "monthDay a \<noteq> lit ''Yesterday''"
    by metis+
qed

lemma words_differ: "lit ''Today'' \<noteq> lit ''Yesterday''"
  by (simp add: lit_def)

lemma formatDate_cases:
  "formatDate zone now t =
     (if zone t = zone (int now) then lit ''Today''
      else if zone t = dayBefore (zone (int now)) then lit ''Yesterday''
      else monthDay (zone t))"
  by (simp add: formatDate_def monthDay_def Let_def)

lemma formatDate_eq_iff:
  "formatDate zone now a = formatDate zone now b \<longleftrightarrow>
     zone a = zone b \<or>
     (\<not> recent zone now (zone a) \<and> \<not> recent zone now (zone b)
        \<and> c_month (zone a) = c_month (zone b) \<and> c_day (zone a) = c_day (zone b))"
  using monthDay_not_word [of "zone a"] monthDay_not_word [of "zone b"] words_differ
    monthDay_eq_iff [of "zone a" "zone b"]
  by (auto simp add: formatDate_cases recent_def)


lemma cdate_eq_iff:
  "a = b \<longleftrightarrow> c_year a = c_year b \<and> c_month a = c_month b \<and> c_day a = c_day (b :: cdate)"
  by (cases a; cases b) simp

lemma separators_nth:
  "index < length msgs \<Longrightarrow> separators zone now msgs ! index = showDate zone now msgs index"
  by (simp add: separators_def)

text \<open>
  C5, as the code has it.  The first message of a transcript gets a separator.  A later
  message gets one exactly when its calendar date differs from that of the message before
  it, unless the two dates are the same day of the same month in different years and
  neither is today or yesterday: their labels, which leave the year out, are then equal
  and no separator is shown.  For two dates of one year the separator is there exactly
  when the dates differ.  For three messages on days D1, D1, D2 whose labels differ the
  flags are: separator, none, separator.
\<close>

theorem date_grouping:
  "(index < length msgs \<longrightarrow>
      (separators zone now msgs ! index \<longleftrightarrow>
         index = 0 \<or>
         (zone (timestamp (msgs ! index)) \<noteq> zone (timestamp (msgs ! (index - 1))) \<and>
          (recent zone now (zone (timestamp (msgs ! index)))
           \<or> recent zone now (zone (timestamp (msgs ! (index - 1))))
           \<or> c_month (zone (timestamp (msgs ! index))) \<noteq> c_month (zone (timestamp (msgs ! (index - 1))))
           \<or> c_day (zone (timestamp (msgs ! index))) \<noteq> c_day (zone (timestamp (msgs ! (index - 1)))))))
      \<and> (c_year (zone (timestamp (msgs ! index))) = c_year (zone (timestamp (msgs ! (index - 1)))) \<longrightarrow>
           (separators zone now msgs ! index \<longleftrightarrow>
              index = 0 \<or> zone (timestamp (msgs ! index)) \<noteq> zone (timestamp (msgs ! (index - 1))))))
   \<and> (zone (timestamp m1) = zone (timestamp m2) \<and> zone (timestamp m3) \<noteq> zone (timestamp m2)
        \<and> (recent zone now (zone (timestamp m3)) \<or> recent zone now (zone (timestamp m2))
            \<or> c_month (zone (timestamp m3)) \<noteq> c_month (zone (timestamp m2))
            \<or> c_day (zone (timestamp m3)) \<noteq> c_day (zone (timestamp m2)))
        \<longrightarrow> separators zone now [m1, m2, m3] = [True, False, True])"
proof (intro conjI impI)
  assume inside: "index < length msgs"
  let ?A = "zone (timestamp (msgs ! index))"
  let ?B = "zone (timestamp (msgs ! (index - 1)))"
  show general: "separators zone now msgs ! index \<longleftrightarrow>
         index = 0 \<or>
         (?A \<noteq> ?B \<and> (recent zone now ?A \<or> recent zone now ?B
            \<or> c_month ?A \<noteq> c_month ?B \<or> c_day ?A \<noteq> c_day ?B))"
    by (simp only: separators_nth [OF inside] showDate_def formatDate_eq_iff) blast
  assume "c_year ?A = c_year ?B"
  with cdate_eq_iff [of ?A ?B]
  have "?A \<noteq> ?B \<longleftrightarrow> c_month ?A \<noteq> c_month ?B \<or> c_day ?A \<noteq> c_day ?B"
    by blast
  then show "separators zone now msgs ! index \<longleftrightarrow> index = 0 \<or> ?A \<noteq> ?B"
    by (simp only: general) blast
next
  assume days: "zone (timestamp m1) = zone (timestamp m2) \<and> zone (timestamp m3) \<noteq> zone (timestamp m2)
        \<and> (recent zone now (zone (timestamp m3)) \<or> recent zone now (zone (timestamp m2))
            \<or> c_month (zone (timestamp m3)) \<noteq> c_month (zone (timestamp m2))
            \<or> c_day (zone (timestamp m3)) \<noteq> c_day (zone (timestamp m2)))"
  have flags: "separators zone now [m1, m2, m3] =
      [showDate zone now [m1, m2, m3] 0, showDate zone now [m1, m2, m3] (Suc 0),
       showDate zone now [m1, m2, m3] (Suc (Suc 0))]"
    by (simp add: separators_def)
  have first: "showDate zone now [m1, m2, m3] 0"
    by (simp add: showDate_def)
  have second: "\<not> showDate zone now [m1, m2, m3] (Suc 0)"
    using days by (simp add: showDate_def formatDate_eq_iff)
  have third: "showDate zone now [m1, m2, m3] (Suc (Suc 0))"
    using days by (simp add: showDate_def formatDate_eq_iff)
  show "separators zone now [m1, m2, m3] = [True, False, True]"
    by (simp only: flags) (simp add: first second third)
qed

lemma sample_dates:
  "fixedZone 0 1709596800000 = \<lparr>c_year = 2024, c_month = March, c_day = 5\<rparr>"
  "fixedZone 0 1709600400000 = \<lparr>c_year = 2024, c_month = March, c_day = 5\<rparr>"
  "fixedZone 0 1709683200000 = \<lparr>c_year = 2024, c_month = March, c_day = 6\<rparr>"
  "fixedZone 0 1741132800000 = \<lparr>c_year = 2025, c_month = March, c_day = 5\<rparr>"
  by code_simp+

lemma sample_today:
  "fixedZone 0 1793577600000 = \<lparr>c_year = 2026, c_month = November, c_day = 2\<rparr>"
  by code_simp

theorem date_grouping_witness:
  "separators (fixedZone 0) 1793577600000
     [messageAt 1709596800000, messageAt 1709600400000, messageAt 1709683200000]
   = [True, False, True]
   \<and> separators (fixedZone 0) 1793577600000
     [messageAt 1709596800000, messageAt 1709600400000, messageAt 1709683200000] ! 2"
proof -
  let ?msgs = "[messageAt 1709596800000, messageAt 1709600400000, messageAt 1709683200000]"
  have ts: "timestamp (messageAt t) = t" for t
    by (simp add: messageAt_def)
  have inside: "2 < length ?msgs" by simp
  have at: "?msgs ! 2 = messageAt 1709683200000" "?msgs ! (2 - 1) = messageAt 1709600400000"
    by simp_all
  have day: "c_day (fixedZone 0 (timestamp (messageAt 1709683200000)))
          \<noteq> c_day (fixedZone 0 (timestamp (messageAt 1709600400000)))"
    by (simp add: ts sample_dates)
  have same: "fixedZone 0 (timestamp (messageAt 1709596800000))
      = fixedZone 0 (timestamp (messageAt 1709600400000))"
    and other: "fixedZone 0 (timestamp (messageAt 1709683200000))
      \<noteq> fixedZone 0 (timestamp (messageAt 1709600400000))"
    by (simp_all add: ts sample_dates)
  note dg = date_grouping [of 2 ?msgs "fixedZone 0" 1793577600000 "messageAt 1709596800000"
        "messageAt 1709600400000" "messageAt 1709683200000", unfolded at]
  from dg same other day
  have all: "separators (fixedZone 0) 1793577600000 ?msgs = [True, False, True]"
    by blast
  from dg inside other day
  have third: "separators (fixedZone 0) 1793577600000 ?msgs ! 2"
    by blast
  from all third show ?thesis by (rule conjI)
qed

text \<open>
  C5 as stated fails across years: read on 2 November 2026 in a zone at UTC, messages of
  5 March 2024, 5 March 2024 and 5 March 2025 get one separator, before the first; the
  third message has a date that differs from the second and gets none.
\<close>

theorem date_grouping_counterexample:
  "fixedZone 0 (timestamp (messageAt 1741132800000)) \<noteq> fixedZone 0 (timestamp (messageAt 1709600400000))
   \<and> separators (fixedZone 0) 1793577600000
        [messageAt 1709596800000, messageAt 1709600400000, messageAt 1741132800000]
      = [True, False, False]"
proof -
  have ts: "timestamp (messageAt t) = t" for t
    by (simp add: messageAt_def)
  have today: "\<not> recent (fixedZone 0) 1793577600000 \<lparr>c_year = 2024, c_month = March, c_day = 5\<rparr>"
    "\<not> recent (fixedZone 0) 1793577600000 \<lparr>c_year = 2025, c_month = March, c_day = 5\<rparr>"
    by (simp_all add: recent_def sample_today dayBefore_def)
  have flags: "separators (fixedZone 0) 1793577600000
        [messageAt 1709596800000, messageAt 1709600400000, messageAt 1741132800000]
      = [True, False, False]"
    by (simp add: separators_def showDate_def formatDate_eq_iff ts sample_dates today)
  show ?thesis
    by (simp add: flags ts sample_dates)
qed


end
